theory Spec2Isabelle
  imports Main "HOL-Library.AList"
begin

section \<open>Values, entries and options\<close>

text \<open>
  Cached values are of TypeScript type \<open>any\<close>. The drivers only ever ask whether a
  value is \<open>null\<close> and whether \<open>typeof v === 'number'\<close>, so a value is one of the
  constructors below. Numbers are JavaScript doubles in the source; the model uses
  \<open>int\<close>, which is exact for the millisecond timestamps and the counters the driver
  computes with.
\<close>

datatype jsvalue = JNull | JNumber int | JString string | JBool bool

text \<open>\<open>interface CacheEntry\<close> of \<open>memory.driver.ts\<close>; \<open>expiresAt: number | null\<close>.\<close>

record CacheEntry =
  val :: jsvalue
  expiresAt :: "int option"
  createdAt :: int
  accessedAt :: int

datatype ErrorMode = Strict | Graceful

text \<open>\<open>DriverOptions\<close> of \<open>types/driver.ts\<close>: every field is \<open>T | undefined\<close>.\<close>

record ReconnectOptions =
  maxRetries :: "int option"
  retryDelay :: "int option"
  exponentialBackoff :: "bool option"

record DriverOptions =
  keyPrefix :: "string option"
  defaultTtl :: "int option"
  errorMode :: "ErrorMode option"
  reconnect :: "ReconnectOptions option"

text \<open>\<open>MemoryConfig\<close> of \<open>types/config.ts\<close> (\<open>maxMemory\<close> is never read).\<close>

record MemoryConfig =
  maxSize :: "int option"
  cleanupInterval :: "int option"

record Stats =
  hits :: nat
  misses :: nat
  sets :: nat
  deletes :: nat

section \<open>The in-process driver\<close>

text \<open>
  \<open>class MemoryDriver\<close>. The \<open>Map\<close> of entries keeps insertion order, which the
  eviction scan depends on, so it is an association list: \<open>Map.set\<close> is
  \<open>AList.update\<close> (an existing key keeps its place, a new key goes last),
  \<open>Map.delete\<close> is \<open>AList.delete\<close>, \<open>Map.get\<close> is \<open>map_of\<close> and \<open>Map.size\<close> is
  \<open>length\<close>. \<open>cleanupTimer\<close> holds the interval in milliseconds while the sweep
  timer runs.
\<close>

record MemoryDriver =
  store :: "(string \<times> CacheEntry) list"
  config :: MemoryConfig
  options :: DriverOptions
  cleanupTimer :: "int option"
  stats :: Stats

definition resetStats :: Stats where
  "resetStats = \<lparr>hits = 0, misses = 0, sets = 0, deletes = 0\<rparr>"

text \<open>The constructor: \<open>??\<close> replaces only an absent field.\<close>

definition MemoryDriver_new :: "MemoryConfig \<Rightarrow> DriverOptions \<Rightarrow> MemoryDriver" where
  "MemoryDriver_new cfg opts =
     \<lparr>store = [],
      config = cfg,
      options = \<lparr>keyPrefix = (case keyPrefix opts of None \<Rightarrow> Some [] | Some p \<Rightarrow> Some p),
                 defaultTtl = (case defaultTtl opts of None \<Rightarrow> Some 3600 | Some t \<Rightarrow> Some t),
                 errorMode = (case errorMode opts of None \<Rightarrow> Some Strict | Some m \<Rightarrow> Some m),
                 reconnect = reconnect opts\<rparr>,
      cleanupTimer = None,
      stats = resetStats\<rparr>"

text \<open>\<open>getFullKey\<close>: the prefix is used when it is truthy (defined and non-empty).\<close>

definition getFullKey :: "DriverOptions \<Rightarrow> string \<Rightarrow> string" where
  "getFullKey opts key =
     (case keyPrefix opts of
        None \<Rightarrow> key
      | Some p \<Rightarrow> if p \<noteq> [] then p @ key else key)"

text \<open>The test \<open>entry.expiresAt !== null && now > entry.expiresAt\<close>, written three times
  in the source (\<open>get\<close>, \<open>exists\<close>, \<open>cleanup\<close>).\<close>

definition expired :: "int \<Rightarrow> CacheEntry \<Rightarrow> bool" where
  "expired now entry = (case expiresAt entry of None \<Rightarrow> False | Some e \<Rightarrow> now > e)"

text \<open>
  Every \<open>Date.now()\<close> the source evaluates is a parameter of the model, in the order
  of evaluation. \<open>get\<close> reads the clock for the expiry test (\<open>t_check\<close>) and again for
  the access time (\<open>t_access\<close>). A miss returns \<open>null\<close>.
\<close>

definition MemoryDriver_get ::
  "int \<Rightarrow> int \<Rightarrow> string \<Rightarrow> MemoryDriver \<Rightarrow> jsvalue \<times> MemoryDriver" where
  "MemoryDriver_get t_check t_access key d =
     (let fullKey = getFullKey (options d) key in
      case map_of (store d) fullKey of
        None \<Rightarrow> (JNull, d\<lparr>stats := (stats d)\<lparr>misses := misses (stats d) + 1\<rparr>\<rparr>)
      | Some entry \<Rightarrow>
          if expired t_check entry
          then (JNull, d\<lparr>store := AList.delete fullKey (store d),
                          stats := (stats d)\<lparr>misses := misses (stats d) + 1\<rparr>\<rparr>)
          else (val entry,
                d\<lparr>store := AList.update fullKey (entry\<lparr>accessedAt := t_access\<rparr>) (store d),
                  stats := (stats d)\<lparr>hits := hits (stats d) + 1\<rparr>\<rparr>))"

text \<open>
  The loop of \<open>evictLeastRecentlyUsed\<close> over \<open>store.entries()\<close>, with its two
  variables \<open>oldestKey\<close> and \<open>oldestAccessTime\<close>.
\<close>

fun evict_scan ::
  "(string \<times> CacheEntry) list \<Rightarrow> string option \<Rightarrow> int \<Rightarrow> string option" where
  "evict_scan [] oldestKey oldestAccessTime = oldestKey"
| "evict_scan ((key, entry) # rest) oldestKey oldestAccessTime =
     (if accessedAt entry < oldestAccessTime
      then evict_scan rest (Some key) (accessedAt entry)
      else evict_scan rest oldestKey oldestAccessTime)"

text \<open>\<open>oldestAccessTime\<close> starts at \<open>Date.now()\<close>; \<open>if (oldestKey)\<close> is false for
  \<open>null\<close> and for the empty string.\<close>

definition evictLeastRecentlyUsed :: "int \<Rightarrow> MemoryDriver \<Rightarrow> MemoryDriver" where
  "evictLeastRecentlyUsed now d =
     (case evict_scan (store d) None now of
        None \<Rightarrow> d
      | Some oldestKey \<Rightarrow>
          if oldestKey \<noteq> [] then d\<lparr>store := AList.delete oldestKey (store d)\<rparr> else d)"

text \<open>\<open>ttl ?? this.options.defaultTtl\<close>: the default replaces an absent \<open>ttl\<close> only.\<close>

definition effectiveTtl :: "int option \<Rightarrow> DriverOptions \<Rightarrow> int option" where
  "effectiveTtl ttl opts = (case ttl of None \<Rightarrow> defaultTtl opts | Some t \<Rightarrow> Some t)"

text \<open>\<open>effectiveTtl && effectiveTtl > 0 ? now + effectiveTtl * 1000 : null\<close>.\<close>

definition expiry_of :: "int \<Rightarrow> int option \<Rightarrow> int option" where
  "expiry_of now eff =
     (case eff of
        None \<Rightarrow> None
      | Some t \<Rightarrow> if t \<noteq> 0 \<and> t > 0 then Some (now + t * 1000) else None)"

text \<open>
  \<open>set\<close>: \<open>now\<close> is the clock reading of line 72, \<open>t_evict\<close> the one taken inside
  \<open>evictLeastRecentlyUsed\<close> when it runs. \<open>this.config.maxSize && ...\<close> is false when
  \<open>maxSize\<close> is absent or zero.
\<close>

definition MemoryDriver_set ::
  "int \<Rightarrow> int \<Rightarrow> string \<Rightarrow> jsvalue \<Rightarrow> int option \<Rightarrow> MemoryDriver \<Rightarrow> MemoryDriver" where
  "MemoryDriver_set now t_evict key v ttl d =
     (let fullKey = getFullKey (options d) key;
          eff = effectiveTtl ttl (options d);
          d1 = (if (case maxSize (config d) of
                      None \<Rightarrow> False
                    | Some m \<Rightarrow> m \<noteq> 0 \<and> int (length (store d)) \<ge> m)
                   \<and> map_of (store d) fullKey = None
                then evictLeastRecentlyUsed t_evict d
                else d);
          entry = \<lparr>val = v, expiresAt = expiry_of now eff, createdAt = now, accessedAt = now\<rparr>
      in d1\<lparr>store := AList.update fullKey entry (store d1),
            stats := (stats d1)\<lparr>sets := sets (stats d1) + 1\<rparr>\<rparr>)"

definition MemoryDriver_delete :: "string \<Rightarrow> MemoryDriver \<Rightarrow> bool \<times> MemoryDriver" where
  "MemoryDriver_delete key d =
     (let fullKey = getFullKey (options d) key;
          existed = (map_of (store d) fullKey \<noteq> None)
      in if existed
         then (True, d\<lparr>store := AList.delete fullKey (store d),
                        stats := (stats d)\<lparr>deletes := deletes (stats d) + 1\<rparr>\<rparr>)
         else (False, d))"

definition MemoryDriver_exists :: "int \<Rightarrow> string \<Rightarrow> MemoryDriver \<Rightarrow> bool \<times> MemoryDriver" where
  "MemoryDriver_exists now key d =
     (let fullKey = getFullKey (options d) key in
      case map_of (store d) fullKey of
        None \<Rightarrow> (False, d)
      | Some entry \<Rightarrow>
          if expired now entry
          then (False, d\<lparr>store := AList.delete fullKey (store d)\<rparr>)
          else (True, d))"

definition MemoryDriver_clear :: "MemoryDriver \<Rightarrow> MemoryDriver" where
  "MemoryDriver_clear d = d\<lparr>store := [], stats := resetStats\<rparr>"

text \<open>\<open>deleteMultiple\<close>: the \<open>for\<close> loop with its counter.\<close>

fun deleteMultiple_loop :: "string list \<Rightarrow> nat \<Rightarrow> MemoryDriver \<Rightarrow> nat \<times> MemoryDriver" where
  "deleteMultiple_loop [] deletedCount d = (deletedCount, d)"
| "deleteMultiple_loop (key # keys) deletedCount d =
     (case MemoryDriver_delete key d of
        (wasDeleted, d') \<Rightarrow>
          deleteMultiple_loop keys (if wasDeleted then deletedCount + 1 else deletedCount) d')"

definition MemoryDriver_deleteMultiple :: "string list \<Rightarrow> MemoryDriver \<Rightarrow> nat \<times> MemoryDriver" where
  "MemoryDriver_deleteMultiple keys d = deleteMultiple_loop keys 0 d"

text \<open>
  \<open>increment(key, increment = 1)\<close>: an absent amount is 1. The four clock readings are
  those of the \<open>get\<close> and of the \<open>set\<close> it calls; \<open>set\<close> is called without a \<open>ttl\<close>.
\<close>

definition MemoryDriver_increment ::
  "int \<Rightarrow> int \<Rightarrow> int \<Rightarrow> int \<Rightarrow> string \<Rightarrow> int option \<Rightarrow> MemoryDriver \<Rightarrow> int \<times> MemoryDriver" where
  "MemoryDriver_increment t_check t_access now t_evict key amount d =
     (let increment = (case amount of None \<Rightarrow> 1 | Some n \<Rightarrow> n) in
      case MemoryDriver_get t_check t_access key d of
        (currentValue, d1) \<Rightarrow>
          let numericValue = (case currentValue of JNumber x \<Rightarrow> x | _ \<Rightarrow> 0);
              newValue = numericValue + increment
          in (newValue, MemoryDriver_set now t_evict key (JNumber newValue) None d1))"

definition MemoryDriver_decrement ::
  "int \<Rightarrow> int \<Rightarrow> int \<Rightarrow> int \<Rightarrow> string \<Rightarrow> int option \<Rightarrow> MemoryDriver \<Rightarrow> int \<times> MemoryDriver" where
  "MemoryDriver_decrement t_check t_access now t_evict key amount d =
     (let decrement = (case amount of None \<Rightarrow> 1 | Some n \<Rightarrow> n) in
      MemoryDriver_increment t_check t_access now t_evict key (Some (- decrement)) d)"

text \<open>The stored entry of a key, as \<open>Map.get\<close> on the full key returns it.\<close>

definition entry_of :: "MemoryDriver \<Rightarrow> string \<Rightarrow> CacheEntry option" where
  "entry_of d key = map_of (store d) (getFullKey (options d) key)"

section \<open>Errors\<close>

text \<open>
  The error classes of \<open>types/errors.ts\<close>. Each carries its message and the optional
  store (and operation) it was raised for; \<open>CacheError\<close> itself also carries its code.
\<close>

datatype CacheError =
    CacheError string string "string option"
  | CacheConnectionError string "string option"
  | CacheConfigurationError string "string option"
  | CacheDriverError string "string option" "string option"


section \<open>The networked driver\<close>

text \<open>
  \<open>class RedisDriver\<close>. Of the client library only what the driver reads is kept: the
  flags \<open>isOpen\<close> and \<open>isReady\<close>, and the commands the driver sends. The last two fields
  model the event loop: the timeouts that are pending, each with its handle and delay,
  and the next fresh handle. \<open>setTimeout\<close> adds a timeout and \<open>clearTimeout\<close> removes
  it.
\<close>

record RedisClient =
  isOpen :: bool
  isReady :: bool

record RedisDriver =
  client :: "RedisClient option"
  redis_options :: DriverOptions
  reconnectTimer :: "nat option"
  reconnectAttempts :: nat
  isConnecting :: bool
  pendingTimeouts :: "(nat \<times> int) list"
  nextHandle :: nat


text \<open>The constructor: an absent reconnect policy becomes
  \<open>{maxRetries: 5, retryDelay: 1000, exponentialBackoff: true}\<close>.\<close>

definition RedisDriver_new :: "DriverOptions \<Rightarrow> RedisDriver" where
  "RedisDriver_new opts =
     \<lparr>client = None,
      redis_options =
        \<lparr>keyPrefix = (case keyPrefix opts of None \<Rightarrow> Some [] | Some p \<Rightarrow> Some p),
         defaultTtl = (case defaultTtl opts of None \<Rightarrow> Some 3600 | Some t \<Rightarrow> Some t),
         errorMode = (case errorMode opts of None \<Rightarrow> Some Strict | Some m \<Rightarrow> Some m),
         reconnect = (case reconnect opts of
                        None \<Rightarrow> Some \<lparr>maxRetries = Some 5, retryDelay = Some 1000,
                                       exponentialBackoff = Some True\<rparr>
                      | Some r \<Rightarrow> Some r)\<rparr>,
      reconnectTimer = None,
      reconnectAttempts = 0,
      isConnecting = False,
      pendingTimeouts = [],
      nextHandle = 0\<rparr>"





subsection \<open>Reconnection\<close>

definition setTimeout :: "int \<Rightarrow> RedisDriver \<Rightarrow> nat \<times> RedisDriver" where
  "setTimeout delay d =
     (nextHandle d,
      d\<lparr>pendingTimeouts := pendingTimeouts d @ [(nextHandle d, delay)],
        nextHandle := nextHandle d + 1\<rparr>)"

definition clearTimeout :: "nat \<Rightarrow> RedisDriver \<Rightarrow> RedisDriver" where
  "clearTimeout h d = d\<lparr>pendingTimeouts := filter (\<lambda>(h', delay). h' \<noteq> h) (pendingTimeouts d)\<rparr>"

text \<open>\<open>scheduleReconnect\<close>, up to and including the call of \<open>setTimeout\<close>.\<close>

definition scheduleReconnect :: "RedisDriver \<Rightarrow> RedisDriver" where
  "scheduleReconnect d =
     (if reconnectTimer d \<noteq> None then d
      else
        let baseDelay = (case reconnect (redis_options d) of
                           None \<Rightarrow> 1000
                         | Some r \<Rightarrow> (case retryDelay r of None \<Rightarrow> 1000 | Some x \<Rightarrow> x));
            exponentialBackoff = (case reconnect (redis_options d) of
                           None \<Rightarrow> True
                         | Some r \<Rightarrow> (case exponentialBackoff r of None \<Rightarrow> True | Some b \<Rightarrow> b));
            delay = (if exponentialBackoff
                     then baseDelay * 2 ^ (min (reconnectAttempts d) 6)
                     else baseDelay)
        in case setTimeout delay d of
             (h, d') \<Rightarrow> d'\<lparr>reconnectTimer := Some h\<rparr>)"

definition handleConnectionError :: "RedisDriver \<Rightarrow> RedisDriver" where
  "handleConnectionError d =
     (if isConnecting d \<or> reconnect (redis_options d) = None then d
      else
        let maxRetries = (case reconnect (redis_options d) of
                            None \<Rightarrow> 5
                          | Some r \<Rightarrow> (case maxRetries r of None \<Rightarrow> 5 | Some m \<Rightarrow> m))
        in if int (reconnectAttempts d) \<ge> maxRetries then d
           else scheduleReconnect d)"

text \<open>\<open>disconnect\<close>: the pending timer is cleared and the client dropped.\<close>

definition RedisDriver_disconnect :: "RedisDriver \<Rightarrow> RedisDriver" where
  "RedisDriver_disconnect d =
     (let d1 = (case reconnectTimer d of
                  None \<Rightarrow> d
                | Some h \<Rightarrow> (clearTimeout h d)\<lparr>reconnectTimer := None\<rparr>)
      in d1\<lparr>client := None\<rparr>)"

text \<open>
  \<open>initialize\<close>: a new client is created and connected. \<open>connected\<close> tells whether
  \<open>client.connect()\<close> resolves; when it does, \<open>reconnectAttempts\<close> is reset, and when it
  does not, a \<open>CacheConnectionError\<close> is raised.
\<close>

definition RedisDriver_initialize :: "bool \<Rightarrow> RedisDriver \<Rightarrow> bool \<times> RedisDriver" where
  "RedisDriver_initialize connected d =
     (if connected
      then (True, d\<lparr>client := Some \<lparr>isOpen = True, isReady = True\<rparr>, reconnectAttempts := 0\<rparr>)
      else (False, d\<lparr>client := Some \<lparr>isOpen = False, isReady = False\<rparr>\<rparr>))"

text \<open>\<open>reconnect\<close>: \<open>disconnect\<close>, then \<open>initialize\<close>.\<close>

definition RedisDriver_reconnect :: "bool \<Rightarrow> RedisDriver \<Rightarrow> bool \<times> RedisDriver" where
  "RedisDriver_reconnect connected d = RedisDriver_initialize connected (RedisDriver_disconnect d)"

text \<open>
  What can happen to a driver, one event at a time:
  \<^item> the client emits \<open>error\<close>, \<open>end\<close> or \<open>connect\<close> and the listener installed by
    \<open>setupEventListeners\<close> runs;
  \<^item> a pending timeout fires and the callback given to \<open>setTimeout\<close> runs up to its
    \<open>await this.reconnect()\<close>: the timer field is cleared, the attempt counted,
    \<open>isConnecting\<close> set and the old client dropped;
  \<^item> that awaited \<open>reconnect()\<close> settles: on success \<open>initialize\<close> has reset the
    counter and \<open>isConnecting\<close> is cleared, on failure \<open>isConnecting\<close> is cleared and
    \<open>handleConnectionError\<close> runs;
  \<^item> the application calls \<open>disconnect()\<close> or \<open>reconnect()\<close> itself.
\<close>

datatype redis_event =
    ClientError
  | ClientEnd
  | ClientConnect
  | TimeoutFired nat
  | ReconnectSettled bool
  | CallDisconnect
  | CallReconnect bool

definition on_connect :: "RedisDriver \<Rightarrow> RedisDriver" where
  "on_connect d =
     (let d1 = d\<lparr>reconnectAttempts := 0\<rparr> in
      case reconnectTimer d1 of
        None \<Rightarrow> d1
      | Some h \<Rightarrow> (clearTimeout h d1)\<lparr>reconnectTimer := None\<rparr>)"

definition timeout_callback :: "nat \<Rightarrow> RedisDriver \<Rightarrow> RedisDriver" where
  "timeout_callback h d =
     (if h \<in> set (map fst (pendingTimeouts d))
      then RedisDriver_disconnect
             ((clearTimeout h d)\<lparr>reconnectTimer := None,
                                 reconnectAttempts := reconnectAttempts d + 1,
                                 isConnecting := True\<rparr>)
      else d)"

definition reconnect_settled :: "bool \<Rightarrow> RedisDriver \<Rightarrow> RedisDriver" where
  "reconnect_settled connected d =
     (case RedisDriver_initialize connected d of
        (True, d') \<Rightarrow> d'\<lparr>isConnecting := False\<rparr>
      | (False, d') \<Rightarrow> handleConnectionError (d'\<lparr>isConnecting := False\<rparr>))"

fun redis_step :: "redis_event \<Rightarrow> RedisDriver \<Rightarrow> RedisDriver" where
  "redis_step ClientError d = handleConnectionError d"
| "redis_step ClientEnd d = handleConnectionError d"
| "redis_step ClientConnect d = on_connect d"
| "redis_step (TimeoutFired h) d = timeout_callback h d"
| "redis_step (ReconnectSettled connected) d = reconnect_settled connected d"
| "redis_step CallDisconnect d = RedisDriver_disconnect d"
| "redis_step (CallReconnect connected) d = snd (RedisDriver_reconnect connected d)"

fun redis_run :: "redis_event list \<Rightarrow> RedisDriver \<Rightarrow> RedisDriver" where
  "redis_run [] d = d"
| "redis_run (ev # evs) d = redis_run evs (redis_step ev d)"

text \<open>The events that report a failed connection, and the firing of a timeout.\<close>

fun failure_event :: "redis_event \<Rightarrow> bool" where
  "failure_event ClientError = True"
| "failure_event ClientEnd = True"
| "failure_event (ReconnectSettled connected) = (\<not> connected)"
| "failure_event (TimeoutFired h) = True"
| "failure_event ClientConnect = False"
| "failure_event CallDisconnect = False"
| "failure_event (CallReconnect connected) = False"

text \<open>The bound \<open>this.options.reconnect.maxRetries ?? 5\<close>.\<close>

definition maxRetries_of :: "RedisDriver \<Rightarrow> int" where
  "maxRetries_of d =
     (case reconnect (redis_options d) of
        None \<Rightarrow> 5
      | Some r \<Rightarrow> (case maxRetries r of None \<Rightarrow> 5 | Some m \<Rightarrow> m))"

subsection \<open>Invariants of the reconnection state\<close>

text \<open>
  In every state the driver reaches, the timeouts pending in the event loop are exactly
  the one recorded in \<open>reconnectTimer\<close>, if any; and while a timeout is pending the
  attempt counter is below the bound.
\<close>

definition redis_inv :: "RedisDriver \<Rightarrow> bool" where
  "redis_inv d \<longleftrightarrow>
     0 \<le> maxRetries_of d
     \<and> int (reconnectAttempts d) \<le> maxRetries_of d
     \<and> (case reconnectTimer d of
          None \<Rightarrow> pendingTimeouts d = []
        | Some h \<Rightarrow> map fst (pendingTimeouts d) = [h]
                    \<and> int (reconnectAttempts d) < maxRetries_of d)"

definition timer_inv :: "RedisDriver \<Rightarrow> bool" where
  "timer_inv d \<longleftrightarrow>
     map fst (pendingTimeouts d) = (case reconnectTimer d of None \<Rightarrow> [] | Some h \<Rightarrow> [h])"

text \<open>Once the bound is reached, failures change neither the counter nor the timers.\<close>

definition exhausted :: "RedisDriver \<Rightarrow> bool" where
  "exhausted d \<longleftrightarrow> maxRetries_of d \<le> int (reconnectAttempts d)
      \<and> reconnectTimer d = None \<and> pendingTimeouts d = []"

text \<open>The configuration of the scenario: \<open>{maxRetries: 2, retryDelay: 100,
  exponentialBackoff: true}\<close>; and its three failures: the connection is lost, the
  first scheduled reconnection fails, the second scheduled reconnection fails.\<close>

definition retry2_driver :: RedisDriver where
  "retry2_driver =
     RedisDriver_new
       \<lparr>keyPrefix = None, defaultTtl = None, errorMode = None,
        reconnect = Some \<lparr>maxRetries = Some 2, retryDelay = Some 100,
                          exponentialBackoff = Some True\<rparr>\<rparr>"

definition three_failures :: "redis_event list" where
  "three_failures =
     [ClientError, TimeoutFired 0, ReconnectSettled False, TimeoutFired 1, ReconnectSettled False]"

text \<open>The delay as the specification words it, for comparison with what
  \<open>scheduleReconnect\<close> computes: \<open>baseDelay * 2^min(attemptCount, 6)\<close> with exponential
  backoff, \<open>baseDelay\<close> without.\<close>

definition spec_delay :: "int \<Rightarrow> bool \<Rightarrow> nat \<Rightarrow> int" where
  "spec_delay baseDelay exponential attemptCount =
     (if exponential then baseDelay * 2 ^ min attemptCount 6 else baseDelay)"

section \<open>The distributed-object driver\<close>

text \<open>
  \<open>class MemcachedDriver\<close>, as far as its counters need it: whether a client object
  exists, the flag \<open>isConnected\<close> and the options (the reconnection fields are not
  read by the counters and are left out). The client library is outside the
  repository, so what it answers is a parameter: \<open>incr\<close> and \<open>decr\<close> resolve with a
  number or with a boolean (the type the driver gives to \<open>promisify\<close>) or reject with
  an error; \<open>set\<close> resolves or rejects.
\<close>

record MemcachedDriver =
  memcached_client :: bool
  isConnected :: bool
  memcached_options :: DriverOptions

datatype memcached_command =
    MC_INCR string int
  | MC_DECR string int
  | MC_SET string string int

datatype counter_reply = ReplyNumber int | ReplyBoolean bool | ReplyRejected string

definition MemcachedDriver_isReady :: "MemcachedDriver \<Rightarrow> bool" where
  "MemcachedDriver_isReady d = (isConnected d \<and> memcached_client d)"

text \<open>\<open>set\<close>: the lifetime sent is \<open>effectiveTtl ?? 0\<close>. \<open>set_reply\<close> is \<open>None\<close> when the
  client's \<open>set\<close> resolves and the error's message when it rejects. The result is the
  error raised if any, and the commands sent.\<close>

definition MemcachedDriver_set ::
  "(jsvalue \<Rightarrow> string) \<Rightarrow> string option \<Rightarrow> string \<Rightarrow> jsvalue \<Rightarrow> int option \<Rightarrow>
     MemcachedDriver \<Rightarrow> (CacheError + unit) \<times> memcached_command list" where
  "MemcachedDriver_set serialize set_reply key v ttl d =
     (if \<not> MemcachedDriver_isReady d
      then (Inl (CacheConnectionError ''Memcached client not ready'' (Some ''memcached'')), [])
      else
        let fullKey = getFullKey (memcached_options d) key;
            serializedValue = serialize v;
            eff = effectiveTtl ttl (memcached_options d);
            cmd = MC_SET fullKey serializedValue (case eff of None \<Rightarrow> 0 | Some t \<Rightarrow> t)
        in case set_reply of
             None \<Rightarrow> (Inr (), [cmd])
           | Some msg \<Rightarrow>
               (Inl (CacheDriverError (''Failed to set key '' @ [CHR 0x27] @ key @ [CHR 0x27]
                                        @ '': '' @ msg) (Some ''memcached'') (Some ''set'')),
                [cmd]))"

text \<open>
  \<open>increment(key, increment = 1)\<close>: the inner \<open>try\<close> returns the client's result when
  it is a number and \<open>increment\<close> otherwise; only the inner \<open>catch\<close>, entered when
  \<open>incr\<close> rejects, calls \<open>set\<close>. When that \<open>set\<close> fails too, the error of \<open>incr\<close> is
  rethrown and wrapped by the outer \<open>catch\<close>.
\<close>

definition MemcachedDriver_increment ::
  "(jsvalue \<Rightarrow> string) \<Rightarrow> counter_reply \<Rightarrow> string option \<Rightarrow> string \<Rightarrow> int option \<Rightarrow>
     MemcachedDriver \<Rightarrow> (CacheError + int) \<times> memcached_command list" where
  "MemcachedDriver_increment serialize incr_reply set_reply key amount d =
     (let increment = (case amount of None \<Rightarrow> 1 | Some n \<Rightarrow> n) in
      if \<not> MemcachedDriver_isReady d
      then (Inl (CacheConnectionError ''Memcached client not ready'' (Some ''memcached'')), [])
      else
        let fullKey = getFullKey (memcached_options d) key in
        case incr_reply of
          ReplyNumber result \<Rightarrow> (Inr result, [MC_INCR fullKey increment])
        | ReplyBoolean result \<Rightarrow> (Inr increment, [MC_INCR fullKey increment])
        | ReplyRejected msg \<Rightarrow>
            (case MemcachedDriver_set serialize set_reply key (JNumber increment) None d of
               (Inr u, cmds) \<Rightarrow> (Inr increment, MC_INCR fullKey increment # cmds)
             | (Inl setError, cmds) \<Rightarrow>
                 (Inl (CacheDriverError (''Failed to increment key '' @ [CHR 0x27] @ key
                                          @ [CHR 0x27] @ '': '' @ msg)
                         (Some ''memcached'') (Some ''increment'')),
                  MC_INCR fullKey increment # cmds)))"

definition MemcachedDriver_decrement ::
  "(jsvalue \<Rightarrow> string) \<Rightarrow> counter_reply \<Rightarrow> string option \<Rightarrow> string \<Rightarrow> int option \<Rightarrow>
     MemcachedDriver \<Rightarrow> (CacheError + int) \<times> memcached_command list" where
  "MemcachedDriver_decrement serialize decr_reply set_reply key amount d =
     (let decrement = (case amount of None \<Rightarrow> 1 | Some n \<Rightarrow> n) in
      if \<not> MemcachedDriver_isReady d
      then (Inl (CacheConnectionError ''Memcached client not ready'' (Some ''memcached'')), [])
      else
        let fullKey = getFullKey (memcached_options d) key in
        case decr_reply of
          ReplyNumber result \<Rightarrow> (Inr result, [MC_DECR fullKey decrement])
        | ReplyBoolean result \<Rightarrow> (Inr (- decrement), [MC_DECR fullKey decrement])
        | ReplyRejected msg \<Rightarrow>
            (let newValue = - decrement in
             case MemcachedDriver_set serialize set_reply key (JNumber newValue) None d of
               (Inr u, cmds) \<Rightarrow> (Inr newValue, MC_DECR fullKey decrement # cmds)
             | (Inl setError, cmds) \<Rightarrow>
                 (Inl (CacheDriverError (''Failed to decrement key '' @ [CHR 0x27] @ key
                                          @ [CHR 0x27] @ '': '' @ msg)
                         (Some ''memcached'') (Some ''decrement'')),
                  MC_DECR fullKey decrement # cmds)))"

text \<open>A connected driver as the integration test configures it: prefix \<open>test:\<close>,
  default time-to-live 300 seconds.\<close>

definition ready_memcached :: MemcachedDriver where
  "ready_memcached =
     \<lparr>memcached_client = True, isConnected = True,
      memcached_options =
        \<lparr>keyPrefix = Some ''test:'', defaultTtl = Some 300, errorMode = Some Strict,
         reconnect = Some \<lparr>maxRetries = Some 5, retryDelay = Some 1000,
                           exponentialBackoff = Some True\<rparr>\<rparr>\<rparr>"

section \<open>The facade and its stores\<close>

text \<open>
  \<open>class Cache\<close>, with the configuration types of \<open>types/config.ts\<close>. The \<open>connection\<close>
  settings are passed to the driver's constructor untouched and are left out. The
  \<open>driver\<close> tag is one of the three the type allows, or any other string a caller passes
  at run time.
\<close>

datatype DriverType = Memory | Redis | Memcached | Other string

record StoreConfig =
  driver_type :: DriverType
  store_defaultTtl :: "int option"
  store_keyPrefix :: "string option"
  store_errorMode :: "ErrorMode option"
  store_reconnect :: "ReconnectOptions option"

record CacheConfig =
  default_store :: string
  config_stores :: "(string \<times> StoreConfig) list"
  globalTtl :: "int option"
  globalErrorMode :: "ErrorMode option"

text \<open>\<open>interface StoreInstance\<close>; \<open>'d\<close> is the state of a driver object.\<close>

record 'd StoreInstance =
  driver :: 'd
  instance_config :: StoreConfig
  initialized :: bool

record 'd Cache =
  cache_config :: "CacheConfig option"
  stores :: "(string \<times> 'd StoreInstance) list"
  defaultStore :: "string option"


text \<open>The operations of the facade, one constructor for each method that delegates to
  a driver.\<close>

datatype operation =
    Get string
  | Set string jsvalue "int option"
  | Delete string
  | Exists string
  | Clear
  | GetMultiple "string list"
  | SetMultiple "(string \<times> jsvalue) list" "int option"
  | DeleteMultiple "string list"
  | Increment string "int option"
  | Decrement string "int option"
  | GetStats

text \<open>
  The facade holds drivers through the \<open>CacheDriver\<close> interface only. What a driver
  does is therefore a parameter: how one is constructed, what invoking
  \<open>initialize()\<close> does to it, and what each operation returns and does to it.
\<close>

record ('d, 'r) CacheDriver =
  construct :: "DriverType \<Rightarrow> DriverOptions \<Rightarrow> 'd"
  initialize :: "'d \<Rightarrow> 'd"
  perform :: "operation \<Rightarrow> 'd \<Rightarrow> (CacheError + 'r) \<times> 'd"

definition not_initialized :: CacheError where
  "not_initialized =
     CacheConfigurationError ''Cache not initialized. Call Cache.initialize() first.'' None"

text \<open>\<open>createDriver\<close>: the options are resolved with \<open>??\<close> (the same object
  literal in \<open>Cache\<close> and in \<open>StoreManager\<close>), then the \<open>switch\<close> picks the
  constructor.\<close>

definition resolve_options :: "CacheConfig \<Rightarrow> StoreConfig \<Rightarrow> DriverOptions" where
  "resolve_options cfg storeConfig =
     \<lparr>keyPrefix = store_keyPrefix storeConfig,
      defaultTtl = (case store_defaultTtl storeConfig of
                      Some t \<Rightarrow> Some t
                    | None \<Rightarrow> (case globalTtl cfg of Some g \<Rightarrow> Some g | None \<Rightarrow> Some 3600)),
      errorMode = (case store_errorMode storeConfig of
                     Some m \<Rightarrow> Some m
                   | None \<Rightarrow> (case globalErrorMode cfg of
                                Some g \<Rightarrow> Some g
                              | None \<Rightarrow> Some Strict)),
      reconnect = store_reconnect storeConfig\<rparr>"

definition createDriver ::
  "('d, 'r) CacheDriver \<Rightarrow> CacheConfig \<Rightarrow> StoreConfig \<Rightarrow> string \<Rightarrow> CacheError + 'd" where
  "createDriver drv cfg storeConfig storeName =
     (let opts = resolve_options cfg storeConfig
      in case driver_type storeConfig of
           Memory \<Rightarrow> Inr (construct drv Memory opts)
         | Redis \<Rightarrow> Inr (construct drv Redis opts)
         | Memcached \<Rightarrow> Inr (construct drv Memcached opts)
         | Other t \<Rightarrow>
             Inl (CacheConfigurationError (''Unknown driver type: '' @ t) (Some storeName)))"

text \<open>
  \<open>getStoreInstance\<close> is asynchronous. A call runs without interruption up to its
  first \<open>await\<close>, which is the \<open>await storeInstance.driver.initialize()\<close> inside
  \<open>initializeStore\<close>: by then \<open>initialize()\<close> has been invoked on the driver. The call
  either ends before that (an error, or the instance was already initialized) or is
  suspended there.
\<close>

datatype acquisition = Ready | Awaiting

definition getStoreInstance_begin ::
  "('d, 'r) CacheDriver \<Rightarrow> string \<Rightarrow> 'd Cache \<Rightarrow> (CacheError + acquisition) \<times> 'd Cache" where
  "getStoreInstance_begin drv storeName c =
     (case cache_config c of
        None \<Rightarrow> (Inl not_initialized, c)
      | Some cfg \<Rightarrow>
          (case map_of (config_stores cfg) storeName of
             None \<Rightarrow>
               (Inl (CacheConfigurationError
                       (''Store '' @ [CHR 0x27] @ storeName @ [CHR 0x27]
                          @ '' not found in configuration.'') None), c)
           | Some storeConfig \<Rightarrow>
               (case (case map_of (stores c) storeName of
                        Some storeInstance \<Rightarrow> Inr (storeInstance, c)
                      | None \<Rightarrow>
                          (case createDriver drv cfg storeConfig storeName of
                             Inl e \<Rightarrow> Inl e
                           | Inr d \<Rightarrow>
                               let storeInstance =
                                     \<lparr>driver = d, instance_config = storeConfig,
                                      initialized = False\<rparr>
                               in Inr (storeInstance,
                                       c\<lparr>stores := AList.update storeName storeInstance
                                                      (stores c)\<rparr>))) of
                  Inl e \<Rightarrow> (Inl e, c)
                | Inr (storeInstance, c1) \<Rightarrow>
                    if \<not> initialized storeInstance
                    then (Inr Awaiting,
                          c1\<lparr>stores :=
                                AList.update storeName
                                  (storeInstance\<lparr>driver := initialize drv (driver storeInstance)\<rparr>)
                                  (stores c1)\<rparr>)
                    else (Inr Ready, c1))))"

text \<open>
  The rest of a suspended call, run when the awaited \<open>initialize()\<close> settles:
  \<open>outcome\<close> is \<open>None\<close> when it resolved and the error's message when it rejected.
  The instance the call holds is the one stored under its name (no \<open>clear\<close> of the map
  is modelled between the two halves of a call).
\<close>

definition getStoreInstance_resume ::
  "string \<Rightarrow> string option \<Rightarrow> 'd Cache \<Rightarrow> (CacheError + unit) \<times> 'd Cache" where
  "getStoreInstance_resume storeName outcome c =
     (case outcome of
        None \<Rightarrow>
          (Inr (),
           c\<lparr>stores := AList.map_entry storeName (\<lambda>i. i\<lparr>initialized := True\<rparr>) (stores c)\<rparr>)
      | Some msg \<Rightarrow>
          (Inl (CacheError (''Failed to initialize store '' @ [CHR 0x27] @ storeName
                              @ [CHR 0x27] @ '': '' @ msg)
                  ''INITIALIZATION_ERROR'' (Some storeName)), c))"

text \<open>A call that nothing else interleaves with.\<close>

definition getStoreInstance ::
  "('d, 'r) CacheDriver \<Rightarrow> string option \<Rightarrow> string \<Rightarrow> 'd Cache \<Rightarrow>
     (CacheError + unit) \<times> 'd Cache" where
  "getStoreInstance drv outcome storeName c =
     (case getStoreInstance_begin drv storeName c of
        (Inl e, c1) \<Rightarrow> (Inl e, c1)
      | (Inr Ready, c1) \<Rightarrow> (Inr (), c1)
      | (Inr Awaiting, c1) \<Rightarrow> getStoreInstance_resume storeName outcome c1)"

text \<open>\<open>getDefaultStore\<close>: \<open>!this.defaultStore\<close> holds for \<open>null\<close> and for the empty
  string. The name of the store stands for the driver returned.\<close>

definition getDefaultStore ::
  "('d, 'r) CacheDriver \<Rightarrow> string option \<Rightarrow> 'd Cache \<Rightarrow> (CacheError + string) \<times> 'd Cache" where
  "getDefaultStore drv outcome c =
     (case defaultStore c of
        None \<Rightarrow> (Inl not_initialized, c)
      | Some storeName \<Rightarrow>
          if storeName = [] then (Inl not_initialized, c)
          else (case getStoreInstance drv outcome storeName c of
                  (Inl e, c1) \<Rightarrow> (Inl e, c1)
                | (Inr u, c1) \<Rightarrow> (Inr storeName, c1)))"




text \<open>
  Calls that overlap: \<open>Acquire s\<close> is a caller invoking \<open>getStoreInstance(s)\<close>, which
  runs up to its first \<open>await\<close>; \<open>Settle s outcome\<close> is an awaited \<open>initialize()\<close> of
  store \<open>s\<close> settling, upon which the call suspended on it runs to its end.
\<close>

datatype cache_event = Acquire string | Settle string "string option"

fun cache_step :: "('d, 'r) CacheDriver \<Rightarrow> cache_event \<Rightarrow> 'd Cache \<Rightarrow> 'd Cache" where
  "cache_step drv (Acquire s) c = snd (getStoreInstance_begin drv s c)"
| "cache_step drv (Settle s outcome) c = snd (getStoreInstance_resume s outcome c)"

fun cache_run :: "('d, 'r) CacheDriver \<Rightarrow> cache_event list \<Rightarrow> 'd Cache \<Rightarrow> 'd Cache" where
  "cache_run drv [] c = c"
| "cache_run drv (ev # evs) c = cache_run drv evs (cache_step drv ev c)"

text \<open>
  Calls that do not overlap: each call of \<open>getStoreInstance(s)\<close> runs to its end
  before the next one starts. The list gives, for each call in turn, how the
  \<open>initialize()\<close> it awaits settles, should it get to await one.
\<close>

fun calls_in_sequence ::
  "('d, 'r) CacheDriver \<Rightarrow> string \<Rightarrow> string option list \<Rightarrow> 'd Cache \<Rightarrow> 'd Cache" where
  "calls_in_sequence drv s [] c = c"
| "calls_in_sequence drv s (outcome # outcomes) c =
     calls_in_sequence drv s outcomes (snd (getStoreInstance drv outcome s c))"

text \<open>The number of calls up to and including the first whose \<open>initialize()\<close>
  resolves, or the number of all calls when none does.\<close>

fun calls_until_resolved :: "string option list \<Rightarrow> nat" where
  "calls_until_resolved [] = 0"
| "calls_until_resolved (None # outcomes) = 1"
| "calls_until_resolved (Some msg # outcomes) = Suc (calls_until_resolved outcomes)"

subsection \<open>The store manager\<close>

text \<open>
  \<open>class StoreManager\<close>: \<open>getStore\<close> has the body of \<open>Cache.getStoreInstance\<close>
  without the test of \<open>this.config\<close>, and \<open>createDriver\<close> asks the injected
  \<open>DriverFactory\<close>, whose exceptions it wraps. The factory is a parameter: it returns a
  driver, or the message of the error it throws.
\<close>

record 'd StoreManager =
  manager_config :: CacheConfig
  manager_stores :: "(string \<times> 'd StoreInstance) list"

definition StoreManager_createDriver ::
  "(StoreConfig \<Rightarrow> DriverOptions \<Rightarrow> string + 'd) \<Rightarrow> CacheConfig \<Rightarrow> StoreConfig \<Rightarrow> string \<Rightarrow>
     CacheError + 'd" where
  "StoreManager_createDriver driverFactory cfg storeConfig storeName =
     (case driverFactory storeConfig (resolve_options cfg storeConfig) of
        Inr d \<Rightarrow> Inr d
      | Inl msg \<Rightarrow>
          Inl (CacheConfigurationError
                 (''Failed to create driver for store '' @ [CHR 0x27] @ storeName @ [CHR 0x27]
                    @ '': '' @ msg) None))"

definition getStore_begin ::
  "('d \<Rightarrow> 'd) \<Rightarrow> (StoreConfig \<Rightarrow> DriverOptions \<Rightarrow> string + 'd) \<Rightarrow> string \<Rightarrow> 'd StoreManager \<Rightarrow>
     (CacheError + acquisition) \<times> 'd StoreManager" where
  "getStore_begin driver_initialize driverFactory storeName m =
     (case map_of (config_stores (manager_config m)) storeName of
        None \<Rightarrow>
          (Inl (CacheConfigurationError
                  (''Store '' @ [CHR 0x27] @ storeName @ [CHR 0x27]
                     @ '' not found in configuration.'') None), m)
      | Some storeConfig \<Rightarrow>
          (case (case map_of (manager_stores m) storeName of
                   Some storeInstance \<Rightarrow> Inr (storeInstance, m)
                 | None \<Rightarrow>
                     (case StoreManager_createDriver driverFactory (manager_config m)
                             storeConfig storeName of
                        Inl e \<Rightarrow> Inl e
                      | Inr d \<Rightarrow>
                          let storeInstance =
                                \<lparr>driver = d, instance_config = storeConfig,
                                 initialized = False\<rparr>
                          in Inr (storeInstance,
                                  m\<lparr>manager_stores := AList.update storeName storeInstance
                                                          (manager_stores m)\<rparr>))) of
             Inl e \<Rightarrow> (Inl e, m)
           | Inr (storeInstance, m1) \<Rightarrow>
               if \<not> initialized storeInstance
               then (Inr Awaiting,
                     m1\<lparr>manager_stores :=
                           AList.update storeName
                             (storeInstance\<lparr>driver := driver_initialize (driver storeInstance)\<rparr>)
                             (manager_stores m1)\<rparr>)
               else (Inr Ready, m1)))"

definition getStore_resume ::
  "string \<Rightarrow> string option \<Rightarrow> 'd StoreManager \<Rightarrow> (CacheError + unit) \<times> 'd StoreManager" where
  "getStore_resume storeName outcome m =
     (case outcome of
        None \<Rightarrow>
          (Inr (),
           m\<lparr>manager_stores :=
                AList.map_entry storeName (\<lambda>i. i\<lparr>initialized := True\<rparr>) (manager_stores m)\<rparr>)
      | Some msg \<Rightarrow>
          (Inl (CacheError (''Failed to initialize store '' @ [CHR 0x27] @ storeName
                              @ [CHR 0x27] @ '': '' @ msg)
                  ''INITIALIZATION_ERROR'' (Some storeName)), m))"

fun manager_step ::
  "('d \<Rightarrow> 'd) \<Rightarrow> (StoreConfig \<Rightarrow> DriverOptions \<Rightarrow> string + 'd) \<Rightarrow> cache_event \<Rightarrow>
     'd StoreManager \<Rightarrow> 'd StoreManager" where
  "manager_step ini fac (Acquire s) m = snd (getStore_begin ini fac s m)"
| "manager_step ini fac (Settle s outcome) m = snd (getStore_resume s outcome m)"

fun manager_run ::
  "('d \<Rightarrow> 'd) \<Rightarrow> (StoreConfig \<Rightarrow> DriverOptions \<Rightarrow> string + 'd) \<Rightarrow> cache_event list \<Rightarrow>
     'd StoreManager \<Rightarrow> 'd StoreManager" where
  "manager_run ini fac [] m = m"
| "manager_run ini fac (ev # evs) m = manager_run ini fac evs (manager_step ini fac ev m)"

text \<open>A call of \<open>getStore\<close> that nothing else interleaves with, and calls that do not
  overlap.\<close>

definition getStore ::
  "('d \<Rightarrow> 'd) \<Rightarrow> (StoreConfig \<Rightarrow> DriverOptions \<Rightarrow> string + 'd) \<Rightarrow> string option \<Rightarrow> string \<Rightarrow>
     'd StoreManager \<Rightarrow> (CacheError + unit) \<times> 'd StoreManager" where
  "getStore driver_initialize driverFactory outcome storeName m =
     (case getStore_begin driver_initialize driverFactory storeName m of
        (Inl e, m1) \<Rightarrow> (Inl e, m1)
      | (Inr Ready, m1) \<Rightarrow> (Inr (), m1)
      | (Inr Awaiting, m1) \<Rightarrow> getStore_resume storeName outcome m1)"

fun manager_calls_in_sequence ::
  "('d \<Rightarrow> 'd) \<Rightarrow> (StoreConfig \<Rightarrow> DriverOptions \<Rightarrow> string + 'd) \<Rightarrow> string \<Rightarrow>
     string option list \<Rightarrow> 'd StoreManager \<Rightarrow> 'd StoreManager" where
  "manager_calls_in_sequence ini fac s [] m = m"
| "manager_calls_in_sequence ini fac s (outcome # outcomes) m =
     manager_calls_in_sequence ini fac s outcomes (snd (getStore ini fac outcome s m))"

text \<open>A driver that only counts how often \<open>initialize()\<close> has been invoked on it.\<close>

definition counting_driver :: "(nat, unit) CacheDriver" where
  "counting_driver =
     \<lparr>construct = (\<lambda>t opts. 0),
      initialize = Suc,
      perform = (\<lambda>opn n. (Inr (), n))\<rparr>"

definition one_store_config :: CacheConfig where
  "one_store_config =
     \<lparr>default_store = ''main'',
      config_stores = [(''main'', \<lparr>driver_type = Memory, store_defaultTtl = None,
                                   store_keyPrefix = None, store_errorMode = None,
                                   store_reconnect = None\<rparr>)],
      globalTtl = None, globalErrorMode = None\<rparr>"

text \<open>The facade configured, with no store acquired yet.\<close>

definition configured :: "nat Cache" where
  "configured =
     \<lparr>cache_config = Some one_store_config, stores = [], defaultStore = Some ''main''\<rparr>"

text \<open>How often \<open>initialize()\<close> was invoked on the driver of a store.\<close>

definition initialize_calls :: "nat Cache \<Rightarrow> string \<Rightarrow> nat option" where
  "initialize_calls c s = map_option driver (map_of (stores c) s)"

text \<open>A store manager over the same configuration, with a factory of counting drivers.\<close>

definition new_manager :: "nat StoreManager" where
  "new_manager = \<lparr>manager_config = one_store_config, manager_stores = []\<rparr>"

definition counting_factory :: "StoreConfig \<Rightarrow> DriverOptions \<Rightarrow> string + nat" where
  "counting_factory storeConfig opts = Inr 0"

section \<open>Example states\<close>

text \<open>A key stored at time 1000 with a time-to-live of one second, looked at at time 5000.\<close>

definition session_driver :: MemoryDriver where
  "session_driver =
     MemoryDriver_set 1000 1000 ''session'' (JString ''tok'') (Some 1)
       (MemoryDriver_new \<lparr>maxSize = Some 100, cleanupInterval = Some 1\<rparr>
          \<lparr>keyPrefix = None, defaultTtl = Some 300, errorMode = None, reconnect = None\<rparr>)"

text \<open>A driver of capacity 1 with no key prefix, as the facade builds it from
  \<open>{driver: 'memory', connection: {maxSize: 1}}\<close>.\<close>

definition tiny_driver :: MemoryDriver where
  "tiny_driver =
     MemoryDriver_new \<lparr>maxSize = Some 1, cleanupInterval = None\<rparr>
       \<lparr>keyPrefix = None, defaultTtl = Some 3600, errorMode = Some Strict, reconnect = None\<rparr>"


definition ttl0_driver :: MemoryDriver where
  "ttl0_driver =
     MemoryDriver_new \<lparr>maxSize = None, cleanupInterval = None\<rparr>
       \<lparr>keyPrefix = None, defaultTtl = Some 0, errorMode = Some Strict, reconnect = None\<rparr>"


text \<open>The capacity scenario: capacity 2, insert A at time 1, insert B at time 2, read A at
  time 3.\<close>

definition scenario_driver :: MemoryDriver where
  "scenario_driver =
     snd (MemoryDriver_get 3 3 ''A''
       (MemoryDriver_set 2 2 ''B'' (JNumber 2) None
         (MemoryDriver_set 1 1 ''A'' (JNumber 1) None
           (MemoryDriver_new \<lparr>maxSize = Some 2, cleanupInterval = None\<rparr>
              \<lparr>keyPrefix = None, defaultTtl = Some 3600, errorMode = None,
               reconnect = None\<rparr>))))"

section \<open>Basic facts about the in-process driver\<close>

lemma options_set [simp]: "options (MemoryDriver_set now te key v ttl d) = options d"
  by (simp add: MemoryDriver_set_def evictLeastRecentlyUsed_def Let_def
      split: option.splits)

lemma options_get [simp]: "options (snd (MemoryDriver_get tc ta key d)) = options d"
  by (simp add: MemoryDriver_get_def Let_def split: option.splits)

lemma config_get [simp]: "config (snd (MemoryDriver_get tc ta key d)) = config d"
  by (simp add: MemoryDriver_get_def Let_def split: option.splits)

lemma entry_of_set:
  "entry_of (MemoryDriver_set now te key v ttl d) key =
     Some \<lparr>val = v, expiresAt = expiry_of now (effectiveTtl ttl (options d)),
           createdAt = now, accessedAt = now\<rparr>"
  by (simp add: entry_of_def MemoryDriver_set_def evictLeastRecentlyUsed_def Let_def
      update_conv' split: option.splits)

lemma get_absent:
  "entry_of d key = None \<Longrightarrow> fst (MemoryDriver_get tc ta key d) = JNull"
  by (simp add: entry_of_def MemoryDriver_get_def Let_def)

lemma get_expired:
  "entry_of d key = Some e \<Longrightarrow> expired tc e \<Longrightarrow> fst (MemoryDriver_get tc ta key d) = JNull"
  by (simp add: entry_of_def MemoryDriver_get_def Let_def)

lemma session_driver_eq:
  "session_driver =
     \<lparr>store = [(''session'', \<lparr>val = JString ''tok'', expiresAt = Some 2000,
                              createdAt = 1000, accessedAt = 1000\<rparr>)],
      config = \<lparr>maxSize = Some 100, cleanupInterval = Some 1\<rparr>,
      options = \<lparr>keyPrefix = Some [], defaultTtl = Some 300, errorMode = Some Strict,
                 reconnect = None\<rparr>,
      cleanupTimer = None,
      stats = \<lparr>hits = 0, misses = 0, sets = 1, deletes = 0\<rparr>\<rparr>"
  by (simp add: session_driver_def MemoryDriver_set_def MemoryDriver_new_def getFullKey_def
      effectiveTtl_def expiry_of_def resetStats_def Let_def)

section \<open>Counters on a missing key\<close>

text \<open>
  In the in-process driver, \<open>increment(k, n)\<close> on a key that is absent from the table
  returns exactly \<open>n\<close> and leaves \<open>k\<close> stored with the value \<open>n\<close>;
  \<open>decrement(k, n)\<close> on an absent key returns exactly \<open>-n\<close> and leaves \<open>k\<close> stored
  with the value \<open>-n\<close>. This holds for every clock reading, every configuration and
  every other content of the table.
\<close>

theorem MemoryDriver_counter_on_absent_key:
  assumes "entry_of d k = None"
  shows "fst (MemoryDriver_increment tc ta now te k (Some n) d) = n
       \<and> map_option val (entry_of (snd (MemoryDriver_increment tc ta now te k (Some n) d)) k)
           = Some (JNumber n)
       \<and> fst (MemoryDriver_decrement tc ta now te k (Some n) d) = - n
       \<and> map_option val (entry_of (snd (MemoryDriver_decrement tc ta now te k (Some n) d)) k)
           = Some (JNumber (- n))"
proof -
  obtain cur d1 where g: "MemoryDriver_get tc ta k d = (cur, d1)"
    by (cases "MemoryDriver_get tc ta k d")
  have cur: "cur = JNull"
    using get_absent [OF assms, of tc ta] g by simp
  have inc: "\<And>m. MemoryDriver_increment tc ta now te k (Some m) d
               = (m, MemoryDriver_set now te k (JNumber m) None d1)"
    by (simp add: MemoryDriver_increment_def g cur)
  show ?thesis
    by (simp add: MemoryDriver_decrement_def inc entry_of_set)
qed

text \<open>A driver with capacity 2 that already holds one other key.\<close>

theorem MemoryDriver_counter_on_absent_key_example:
  "entry_of (MemoryDriver_set 1000 1000 ''other'' (JString ''x'') None
               (MemoryDriver_new \<lparr>maxSize = Some 2, cleanupInterval = None\<rparr>
                  \<lparr>keyPrefix = Some ''app:'', defaultTtl = Some 60, errorMode = None,
                   reconnect = None\<rparr>)) ''visits'' = None
   \<and> fst (MemoryDriver_increment 2000 2000 2000 2000 ''visits'' (Some 5)
           (MemoryDriver_set 1000 1000 ''other'' (JString ''x'') None
               (MemoryDriver_new \<lparr>maxSize = Some 2, cleanupInterval = None\<rparr>
                  \<lparr>keyPrefix = Some ''app:'', defaultTtl = Some 60, errorMode = None,
                   reconnect = None\<rparr>))) = 5
   \<and> fst (MemoryDriver_decrement 2000 2000 2000 2000 ''visits'' (Some 5)
           (MemoryDriver_set 1000 1000 ''other'' (JString ''x'') None
               (MemoryDriver_new \<lparr>maxSize = Some 2, cleanupInterval = None\<rparr>
                  \<lparr>keyPrefix = Some ''app:'', defaultTtl = Some 60, errorMode = None,
                   reconnect = None\<rparr>))) = - 5"
proof -
  let ?d = "MemoryDriver_set 1000 1000 ''other'' (JString ''x'') None
               (MemoryDriver_new \<lparr>maxSize = Some 2, cleanupInterval = None\<rparr>
                  \<lparr>keyPrefix = Some ''app:'', defaultTtl = Some 60, errorMode = None,
                   reconnect = None\<rparr>)"
  have h: "entry_of ?d ''visits'' = None"
    by (simp add: entry_of_def MemoryDriver_set_def MemoryDriver_new_def getFullKey_def
        resetStats_def Let_def)
  from MemoryDriver_counter_on_absent_key [OF h, of 2000 2000 2000 2000 5] h
  show ?thesis by simp
qed

text \<open>The same holds for a key whose entry is still stored but has expired: \<open>get\<close>
  reports it absent.\<close>

lemma MemoryDriver_counter_on_expired_key:
  assumes "entry_of d k = Some e" and "expired tc e"
  shows "fst (MemoryDriver_increment tc ta now te k (Some n) d) = n
       \<and> map_option val (entry_of (snd (MemoryDriver_increment tc ta now te k (Some n) d)) k)
           = Some (JNumber n)
       \<and> fst (MemoryDriver_decrement tc ta now te k (Some n) d) = - n
       \<and> map_option val (entry_of (snd (MemoryDriver_decrement tc ta now te k (Some n) d)) k)
           = Some (JNumber (- n))"
proof -
  obtain cur d1 where g: "MemoryDriver_get tc ta k d = (cur, d1)"
    by (cases "MemoryDriver_get tc ta k d")
  have cur: "cur = JNull"
    using get_expired [OF assms, of ta] g by simp
  have inc: "\<And>m. MemoryDriver_increment tc ta now te k (Some m) d
               = (m, MemoryDriver_set now te k (JNumber m) None d1)"
    by (simp add: MemoryDriver_increment_def g cur)
  show ?thesis
    by (simp add: MemoryDriver_decrement_def inc entry_of_set)
qed

subsection \<open>The distributed-object driver\<close>

text \<open>When the client answers \<open>incr\<close> or \<open>decr\<close> with something that is not a number,
  the driver returns the signed amount and sends nothing else: no \<open>set\<close> follows.\<close>

lemma MemcachedDriver_counter_without_number:
  assumes "MemcachedDriver_isReady d"
  shows "MemcachedDriver_increment serialize (ReplyBoolean b) set_reply k (Some n) d
           = (Inr n, [MC_INCR (getFullKey (memcached_options d) k) n])"
    and "MemcachedDriver_decrement serialize (ReplyBoolean b) set_reply k (Some n) d
           = (Inr (- n), [MC_DECR (getFullKey (memcached_options d) k) n])"
  using assms
  by (simp_all add: MemcachedDriver_increment_def MemcachedDriver_decrement_def)

text \<open>Only when \<open>incr\<close> or \<open>decr\<close> rejects does the driver store the signed amount.\<close>

lemma MemcachedDriver_counter_after_rejection:
  assumes "MemcachedDriver_isReady d"
  shows "MemcachedDriver_increment serialize (ReplyRejected msg) None k (Some n) d
           = (Inr n, [MC_INCR (getFullKey (memcached_options d) k) n,
                      MC_SET (getFullKey (memcached_options d) k) (serialize (JNumber n))
                        (case defaultTtl (memcached_options d) of None \<Rightarrow> 0 | Some t \<Rightarrow> t)])"
    and "MemcachedDriver_decrement serialize (ReplyRejected msg) None k (Some n) d
           = (Inr (- n), [MC_DECR (getFullKey (memcached_options d) k) n,
                      MC_SET (getFullKey (memcached_options d) k) (serialize (JNumber (- n)))
                        (case defaultTtl (memcached_options d) of None \<Rightarrow> 0 | Some t \<Rightarrow> t)])"
  using assms
  by (simp_all add: MemcachedDriver_increment_def MemcachedDriver_decrement_def
      MemcachedDriver_set_def effectiveTtl_def Let_def)

text \<open>
  C2 fails on the code of the distributed-object driver. \<open>increment('new-counter', 8)\<close>
  on a connected driver, for a key the server does not hold so that the client answers
  \<open>incr\<close> with \<open>false\<close>, returns 8, and the only command sent is that \<open>incr\<close>: the key
  is not created. Likewise \<open>decrement('new-counter', 8)\<close> returns -8 and sends only
  \<open>decr\<close>. The \<open>set\<close> that would create the key stands in the \<open>catch\<close> branch, which is
  entered only when \<open>incr\<close> rejects.
\<close>

theorem C2_memcached_counter_creates_no_key:
  "MemcachedDriver_increment serialize (ReplyBoolean False) set_reply ''new-counter'' (Some 8)
     ready_memcached
     = (Inr 8, [MC_INCR ''test:new-counter'' 8])
   \<and> MemcachedDriver_decrement serialize (ReplyBoolean False) set_reply ''new-counter'' (Some 8)
     ready_memcached
     = (Inr (- 8), [MC_DECR ''test:new-counter'' 8])"
  by (simp add: MemcachedDriver_increment_def MemcachedDriver_decrement_def
      MemcachedDriver_isReady_def ready_memcached_def getFullKey_def)

section \<open>Deleting entries that have expired but are still stored\<close>

lemma options_delete [simp]: "options (snd (MemoryDriver_delete key d)) = options d"
  by (simp add: MemoryDriver_delete_def Let_def)

lemma store_delete:
  "store (snd (MemoryDriver_delete key d)) = AList.delete (getFullKey (options d) key) (store d)"
  by (simp add: MemoryDriver_delete_def Let_def map_of_eq_None_iff delete_id)

lemma fst_delete:
  "fst (MemoryDriver_delete key d) = (getFullKey (options d) key \<in> fst ` set (store d))"
  by (simp add: MemoryDriver_delete_def Let_def map_of_eq_None_iff)

lemma keys_AList_delete: "fst ` set (AList.delete k al) = fst ` set al - {k}"
  by (induction al) auto

text \<open>\<open>deleteMultiple\<close> returns the number of distinct full keys of its argument that
  are stored, whether or not their entries have expired.\<close>

lemma deleteMultiple_loop_count:
  "fst (deleteMultiple_loop keys c d)
     = c + card (getFullKey (options d) ` set keys \<inter> fst ` set (store d))"
proof (induction keys arbitrary: c d)
  case Nil
  then show ?case by simp
next
  case (Cons key keys)
  obtain w d' where del: "MemoryDriver_delete key d = (w, d')"
    by (cases "MemoryDriver_delete key d")
  let ?f = "getFullKey (options d)"
  let ?S = "fst ` set (store d)"
  have w: "w = (?f key \<in> ?S)" using fst_delete [of key d] del by simp
  have o: "options d' = options d" using options_delete [of key d] del by simp
  have s: "fst ` set (store d') = ?S - {?f key}"
    using store_delete [of key d] del by (simp add: keys_AList_delete)
  have fin: "finite (?f ` set keys \<inter> (?S - {?f key}))" by simp
  show ?case
  proof (cases "?f key \<in> ?S")
    case True
    have "?f ` set (key # keys) \<inter> ?S = insert (?f key) (?f ` set keys \<inter> (?S - {?f key}))"
      using True by auto
    then have "card (?f ` set (key # keys) \<inter> ?S) = Suc (card (?f ` set keys \<inter> (?S - {?f key})))"
      using fin by simp
    then show ?thesis using True w del o s Cons.IH [of "c + 1" d'] by simp
  next
    case False
    have "?f ` set (key # keys) \<inter> ?S = ?f ` set keys \<inter> (?S - {?f key})"
      using False by auto
    then show ?thesis using False w del o s Cons.IH [of c d'] by simp
  qed
qed

lemma exists_expired:
  "entry_of d key = Some e \<Longrightarrow> expired now e \<Longrightarrow> fst (MemoryDriver_exists now key d) = False"
  by (simp add: entry_of_def MemoryDriver_exists_def Let_def)

text \<open>
  C9. When the entry of \<open>k\<close> is still in the table and its \<open>expiresAt\<close> lies before
  the clock reading \<open>now\<close>, then \<open>delete(k)\<close> returns true, \<open>deleteMultiple([k])\<close>
  returns 1, and \<open>deleteMultiple(keys)\<close> for any \<open>keys\<close> containing \<open>k\<close> returns the
  number of distinct stored keys among them, \<open>k\<close> included; while \<open>get(k)\<close> and
  \<open>exists(k)\<close> evaluated at the same reading \<open>now\<close> report absence.
\<close>

theorem C9_delete_counts_expired_entry:
  assumes "entry_of d k = Some e" and "expired now e" and "k \<in> set keys"
  shows "fst (MemoryDriver_delete k d) = True
       \<and> fst (MemoryDriver_deleteMultiple [k] d) = 1
       \<and> fst (MemoryDriver_deleteMultiple keys d)
           = card (getFullKey (options d) ` set keys \<inter> fst ` set (store d))
       \<and> getFullKey (options d) k \<in> getFullKey (options d) ` set keys \<inter> fst ` set (store d)
       \<and> fst (MemoryDriver_get now t_access k d) = JNull
       \<and> fst (MemoryDriver_exists now k d) = False"
proof -
  have present: "getFullKey (options d) k \<in> fst ` set (store d)"
    using assms(1) by (metis entry_of_def map_of_eq_None_iff option.distinct(1))
  have "fst (MemoryDriver_delete k d) = True"
    using present by (simp add: fst_delete)
  moreover have "fst (MemoryDriver_deleteMultiple [k] d) = 1"
    using present
    by (simp add: MemoryDriver_deleteMultiple_def deleteMultiple_loop_count
        del: deleteMultiple_loop.simps)
  moreover have "fst (MemoryDriver_deleteMultiple keys d)
           = card (getFullKey (options d) ` set keys \<inter> fst ` set (store d))"
    by (simp add: MemoryDriver_deleteMultiple_def deleteMultiple_loop_count)
  moreover have "getFullKey (options d) k \<in> getFullKey (options d) ` set keys \<inter> fst ` set (store d)"
    using present assms(3) by simp
  moreover have "fst (MemoryDriver_get now t_access k d) = JNull"
    using assms(1,2) by (rule get_expired)
  moreover have "fst (MemoryDriver_exists now k d) = False"
    using assms(1,2) by (rule exists_expired)
  ultimately show ?thesis by simp
qed

theorem C9_delete_counts_expired_entry_witness:
  "entry_of session_driver ''session''
     = Some \<lparr>val = JString ''tok'', expiresAt = Some 2000, createdAt = 1000, accessedAt = 1000\<rparr>
   \<and> expired 5000 \<lparr>val = JString ''tok'', expiresAt = Some 2000, createdAt = 1000,
                    accessedAt = 1000\<rparr>
   \<and> ''session'' \<in> set [''missing'', ''session'']
   \<and> fst (MemoryDriver_delete ''session'' session_driver) = True
   \<and> fst (MemoryDriver_deleteMultiple [''missing'', ''session''] session_driver) = 1
   \<and> fst (MemoryDriver_get 5000 5000 ''session'' session_driver) = JNull
   \<and> fst (MemoryDriver_exists 5000 ''session'' session_driver) = False"
proof -
  let ?e = "\<lparr>val = JString ''tok'', expiresAt = Some 2000, createdAt = 1000, accessedAt = 1000\<rparr>"
  have h1: "entry_of session_driver ''session'' = Some ?e"
    by (simp add: session_driver_eq entry_of_def getFullKey_def)
  have h2: "expired 5000 ?e"
    by (simp add: expired_def)
  have h3: "''session'' \<in> set [''missing'', ''session'']"
    by simp
  have c: "card (getFullKey (options session_driver) ` set [''missing'', ''session'']
                 \<inter> fst ` set (store session_driver)) = 1"
    by (simp add: session_driver_eq getFullKey_def)
  from C9_delete_counts_expired_entry [OF h1 h2 h3, of 5000] h1 h2 h3 c
  show ?thesis by simp
qed

section \<open>Reading an entry\<close>

lemma expired_iff: "expired t e \<longleftrightarrow> (\<exists>x. expiresAt e = Some x \<and> x < t)"
  by (auto simp: expired_def split: option.splits)

lemma options_exists [simp]: "options (snd (MemoryDriver_exists now key d)) = options d"
  by (simp add: MemoryDriver_exists_def Let_def split: option.splits)

text \<open>
  C4, as the code has it. Let \<open>e\<close> be the stored entry of \<open>k\<close>. \<open>get(k)\<close>: if
  \<open>expiresAt\<close> is defined and strictly before the clock reading, the entry is removed
  from the table and \<open>null\<close> is returned; otherwise the stored value is returned and
  the entry's \<open>accessedAt\<close> becomes the current time. \<open>exists(k)\<close>: if \<open>expiresAt\<close> is
  defined and strictly before the clock reading, the entry is removed and false is
  returned; otherwise true is returned and the driver is left exactly as it was, so
  \<open>accessedAt\<close> is not refreshed.
\<close>

theorem C4_get_refreshes_exists_does_not:
  assumes "entry_of d k = Some e"
  shows "(if \<exists>x. expiresAt e = Some x \<and> x < t_check
          then fst (MemoryDriver_get t_check t_access k d) = JNull
             \<and> entry_of (snd (MemoryDriver_get t_check t_access k d)) k = None
          else fst (MemoryDriver_get t_check t_access k d) = val e
             \<and> entry_of (snd (MemoryDriver_get t_check t_access k d)) k
                 = Some (e\<lparr>accessedAt := t_access\<rparr>))
       \<and> (if \<exists>x. expiresAt e = Some x \<and> x < now
          then fst (MemoryDriver_exists now k d) = False
             \<and> entry_of (snd (MemoryDriver_exists now k d)) k = None
          else MemoryDriver_exists now k d = (True, d))"
  using assms
  by (simp add: entry_of_def MemoryDriver_get_def MemoryDriver_exists_def Let_def
      expired_iff [symmetric] update_conv' delete_conv')

theorem C4_get_refreshes_exists_does_not_witness:
  "entry_of session_driver ''session''
     = Some \<lparr>val = JString ''tok'', expiresAt = Some 2000, createdAt = 1000, accessedAt = 1000\<rparr>
   \<and> fst (MemoryDriver_get 1500 1501 ''session'' session_driver) = JString ''tok''
   \<and> entry_of (snd (MemoryDriver_get 1500 1501 ''session'' session_driver)) ''session''
       = Some \<lparr>val = JString ''tok'', expiresAt = Some 2000, createdAt = 1000, accessedAt = 1501\<rparr>
   \<and> fst (MemoryDriver_exists 2001 ''session'' session_driver) = False
   \<and> entry_of (snd (MemoryDriver_exists 2001 ''session'' session_driver)) ''session'' = None"
proof -
  let ?e = "\<lparr>val = JString ''tok'', expiresAt = Some 2000, createdAt = 1000, accessedAt = 1000\<rparr>"
  have h: "entry_of session_driver ''session'' = Some ?e"
    by (simp add: session_driver_eq entry_of_def getFullKey_def)
  from C4_get_refreshes_exists_does_not [OF h, of 1500 1501 2001] h
  show ?thesis by simp
qed

text \<open>The claim as written fails for \<open>exists\<close>: on an entry that has not expired it
  reports presence, and \<open>accessedAt\<close> keeps its old value 1000 although the clock
  reads 1500.\<close>

theorem C4_exists_keeps_accessedAt:
  "fst (MemoryDriver_exists 1500 ''session'' session_driver) = True
   \<and> map_option accessedAt
        (entry_of (snd (MemoryDriver_exists 1500 ''session'' session_driver)) ''session'')
      = Some 1000"
  by (simp add: session_driver_eq MemoryDriver_exists_def entry_of_def getFullKey_def
      expired_def Let_def)

section \<open>Counters rewrite the whole entry\<close>

lemma increment_eq:
  "MemoryDriver_increment tc ta now te k amount d =
     (let n = (case amount of None \<Rightarrow> 1 | Some n \<Rightarrow> n);
          cur = (case fst (MemoryDriver_get tc ta k d) of JNumber x \<Rightarrow> x | _ \<Rightarrow> 0)
      in (cur + n, MemoryDriver_set now te k (JNumber (cur + n)) None
                     (snd (MemoryDriver_get tc ta k d))))"
  by (simp add: MemoryDriver_increment_def Let_def split: prod.splits)

lemma expiry_of_default:
  "expiry_of now (effectiveTtl None opts)
     = (case defaultTtl opts of
          None \<Rightarrow> None
        | Some t \<Rightarrow> if 0 < t then Some (now + t * 1000) else None)"
  by (auto simp: expiry_of_def effectiveTtl_def split: option.splits)

text \<open>
  C10, as the code has it. Every \<open>increment\<close> and \<open>decrement\<close> stores its result
  through \<open>set\<close> without a time-to-live: whatever the entry of \<open>k\<close> was before, the new
  entry is created at the clock reading \<open>now\<close> of that \<open>set\<close>, and its \<open>expiresAt\<close> is
  \<open>now + defaultTtl * 1000\<close> (seconds to milliseconds) when \<open>defaultTtl\<close> is positive
  and "never" when \<open>defaultTtl\<close> is zero or negative. When the stored value of \<open>k\<close> is
  not a number, it counts as zero: \<open>increment(k, n)\<close> returns \<open>n\<close> and stores \<open>n\<close>,
  \<open>decrement(k, n)\<close> returns \<open>-n\<close> and stores \<open>-n\<close>.
\<close>

theorem C10_counter_rewrites_entry:
  "entry_of (snd (MemoryDriver_increment tc ta now te k amount d)) k
     = Some \<lparr>val = JNumber (fst (MemoryDriver_increment tc ta now te k amount d)),
             expiresAt = (case defaultTtl (options d) of
                            None \<Rightarrow> None
                          | Some t \<Rightarrow> if 0 < t then Some (now + t * 1000) else None),
             createdAt = now, accessedAt = now\<rparr>
   \<and> entry_of (snd (MemoryDriver_decrement tc ta now te k amount d)) k
     = Some \<lparr>val = JNumber (fst (MemoryDriver_decrement tc ta now te k amount d)),
             expiresAt = (case defaultTtl (options d) of
                            None \<Rightarrow> None
                          | Some t \<Rightarrow> if 0 < t then Some (now + t * 1000) else None),
             createdAt = now, accessedAt = now\<rparr>
   \<and> (entry_of d k = Some e \<and> (\<forall>x. val e \<noteq> JNumber x) \<longrightarrow>
        fst (MemoryDriver_increment tc ta now te k (Some n) d) = n
      \<and> fst (MemoryDriver_decrement tc ta now te k (Some n) d) = - n)"
proof -
  have cur: "(case fst (MemoryDriver_get tc ta k d) of JNumber x \<Rightarrow> x | _ \<Rightarrow> 0) = 0"
    if "entry_of d k = Some e" "\<forall>x. val e \<noteq> JNumber x"
    using that
    by (cases "val e") (auto simp: entry_of_def MemoryDriver_get_def Let_def)
  have stored: "entry_of (snd (MemoryDriver_increment tc ta now te k a d)) k
     = Some \<lparr>val = JNumber (fst (MemoryDriver_increment tc ta now te k a d)),
             expiresAt = (case defaultTtl (options d) of
                            None \<Rightarrow> None
                          | Some t \<Rightarrow> if 0 < t then Some (now + t * 1000) else None),
             createdAt = now, accessedAt = now\<rparr>" for a
    by (simp add: increment_eq entry_of_set expiry_of_default Let_def)
  have nonnum: "fst (MemoryDriver_increment tc ta now te k (Some n) d) = n
      \<and> fst (MemoryDriver_decrement tc ta now te k (Some n) d) = - n"
    if "entry_of d k = Some e" "\<forall>x. val e \<noteq> JNumber x"
    using cur [OF that]
    by (simp add: MemoryDriver_decrement_def increment_eq Let_def)
  from stored [of amount] stored [of "Some (- (case amount of None \<Rightarrow> 1 | Some n \<Rightarrow> n))"] nonnum
  show ?thesis
    by (simp add: MemoryDriver_decrement_def Let_def)
qed

text \<open>A string stored at time 1000 for one second, incremented at time 1500 under a
  default time-to-live of 300 seconds.\<close>

theorem C10_counter_rewrites_entry_witness:
  "entry_of session_driver ''session''
     = Some \<lparr>val = JString ''tok'', expiresAt = Some 2000, createdAt = 1000, accessedAt = 1000\<rparr>
   \<and> (\<forall>x. val \<lparr>val = JString ''tok'', expiresAt = Some 2000, createdAt = 1000,
                 accessedAt = 1000\<rparr> \<noteq> JNumber x)
   \<and> fst (MemoryDriver_increment 1500 1500 1500 1500 ''session'' (Some 5) session_driver) = 5
   \<and> entry_of (snd (MemoryDriver_increment 1500 1500 1500 1500 ''session'' (Some 5)
                      session_driver)) ''session''
       = Some \<lparr>val = JNumber 5, expiresAt = Some 301500, createdAt = 1500, accessedAt = 1500\<rparr>"
proof -
  let ?e = "\<lparr>val = JString ''tok'', expiresAt = Some 2000, createdAt = 1000, accessedAt = 1000\<rparr>"
  have h1: "entry_of session_driver ''session'' = Some ?e"
    by (simp add: session_driver_eq entry_of_def getFullKey_def)
  have h2: "\<forall>x. val ?e \<noteq> JNumber x"
    by simp
  have o: "defaultTtl (options session_driver) = Some 300"
    by (simp add: session_driver_eq)
  from C10_counter_rewrites_entry
         [where d = session_driver and k = "''session''" and e = ?e and n = 5
            and amount = "Some 5" and tc = 1500 and ta = 1500 and now = 1500 and te = 1500]
       h1 h2 o
  show ?thesis by simp
qed

text \<open>The claim as written fails when \<open>defaultTtl\<close> is zero: the counter's entry gets no
  expiry at all, not the expiry \<open>now + defaultTtl\<close>.\<close>

theorem C10_zero_default_gives_no_expiry:
  "map_option expiresAt
     (entry_of (snd (MemoryDriver_increment 1000 1000 1000 1000 ''hits'' (Some 1) ttl0_driver))
        ''hits'') = Some None
   \<and> map_option expiresAt
     (entry_of (snd (MemoryDriver_increment 1000 1000 1000 1000 ''hits'' (Some 1) ttl0_driver))
        ''hits'') \<noteq> Some (Some (1000 + 0))"
  by (simp add: ttl0_driver_def MemoryDriver_increment_def MemoryDriver_get_def
      MemoryDriver_set_def MemoryDriver_new_def getFullKey_def effectiveTtl_def expiry_of_def
      entry_of_def resetStats_def Let_def)

section \<open>The capacity bound\<close>

lemmas memory_eval = MemoryDriver_set_def MemoryDriver_new_def MemoryDriver_get_def
  evictLeastRecentlyUsed_def getFullKey_def effectiveTtl_def expiry_of_def expired_def
  resetStats_def entry_of_def Let_def

text \<open>
  C1 fails on the code. With \<open>maxSize = 1\<close>, two \<open>set\<close> calls for different keys
  within the same millisecond leave both keys in the table: the eviction scan starts
  from \<open>oldestAccessTime = Date.now()\<close> and only takes entries accessed strictly
  before it, so it finds nothing to evict.
\<close>

theorem C1_capacity_exceeded_within_one_millisecond:
  "map (\<lambda>(k, e). (k, val e))
       (store (MemoryDriver_set 1000 1000 ''b'' (JNumber 2) None
                (MemoryDriver_set 1000 1000 ''a'' (JNumber 1) None tiny_driver)))
     = [(''a'', JNumber 1), (''b'', JNumber 2)]
   \<and> maxSize (config (MemoryDriver_set 1000 1000 ''b'' (JNumber 2) None
                (MemoryDriver_set 1000 1000 ''a'' (JNumber 1) None tiny_driver))) = Some 1"
  by (simp add: tiny_driver_def memory_eval)

text \<open>The same happens at any later time when the oldest entry is stored under the
  empty key, because \<open>if (oldestKey)\<close> is false for the empty string.\<close>

lemma empty_key_never_evicted:
  "map fst
       (store (MemoryDriver_set 3000 3000 ''b'' (JNumber 2) None
                (MemoryDriver_set 1000 1000 '''' (JNumber 1) None tiny_driver)))
     = ['''', ''b'']"
  by (simp add: tiny_driver_def memory_eval)

section \<open>Resolving the time-to-live\<close>




section \<open>Eviction once the clock has advanced\<close>

text \<open>The scan returns the key it was started with when no entry was accessed before
  the starting time, and otherwise the key of an entry with the least \<open>accessedAt\<close>.\<close>

lemma evict_scan_result:
  "evict_scan xs ok t = r \<Longrightarrow>
     (r = ok \<and> (\<forall>(k, e) \<in> set xs. t \<le> accessedAt e))
     \<or> (\<exists>k e. r = Some k \<and> (k, e) \<in> set xs \<and> accessedAt e < t
            \<and> (\<forall>(k', e') \<in> set xs. accessedAt e \<le> accessedAt e'))"
proof (induction xs ok t rule: evict_scan.induct)
  case (1 oldestKey oldestAccessTime)
  then show ?case by simp
next
  case (2 key entry rest oldestKey oldestAccessTime)
  show ?case
  proof (cases "accessedAt entry < oldestAccessTime")
    case True
    then have r: "evict_scan rest (Some key) (accessedAt entry) = r"
      using "2.prems" by simp
    from "2.IH"(1) [OF True r] show ?thesis
    proof
      assume "r = Some key \<and> (\<forall>(k, e) \<in> set rest. accessedAt entry \<le> accessedAt e)"
      then show ?thesis using True by auto
    next
      assume "\<exists>k e. r = Some k \<and> (k, e) \<in> set rest \<and> accessedAt e < accessedAt entry
            \<and> (\<forall>(k', e') \<in> set rest. accessedAt e \<le> accessedAt e')"
      then obtain k e where "r = Some k" "(k, e) \<in> set rest" "accessedAt e < accessedAt entry"
        "\<forall>(k', e') \<in> set rest. accessedAt e \<le> accessedAt e'" by blast
      then have "r = Some k \<and> (k, e) \<in> set ((key, entry) # rest) \<and> accessedAt e < oldestAccessTime
            \<and> (\<forall>(k', e') \<in> set ((key, entry) # rest). accessedAt e \<le> accessedAt e')"
        using True by auto
      then show ?thesis by blast
    qed
  next
    case False
    then have r: "evict_scan rest oldestKey oldestAccessTime = r"
      using "2.prems" by simp
    from "2.IH"(2) [OF False r] show ?thesis
    proof
      assume "r = oldestKey \<and> (\<forall>(k, e) \<in> set rest. oldestAccessTime \<le> accessedAt e)"
      then show ?thesis using False by auto
    next
      assume "\<exists>k e. r = Some k \<and> (k, e) \<in> set rest \<and> accessedAt e < oldestAccessTime
            \<and> (\<forall>(k', e') \<in> set rest. accessedAt e \<le> accessedAt e')"
      then obtain k e where "r = Some k" "(k, e) \<in> set rest" "accessedAt e < oldestAccessTime"
        "\<forall>(k', e') \<in> set rest. accessedAt e \<le> accessedAt e'" by blast
      then have "r = Some k \<and> (k, e) \<in> set ((key, entry) # rest) \<and> accessedAt e < oldestAccessTime
            \<and> (\<forall>(k', e') \<in> set ((key, entry) # rest). accessedAt e \<le> accessedAt e')"
        using False by auto
      then show ?thesis by blast
    qed
  qed
qed

lemma update_new_key: "k \<notin> fst ` set al \<Longrightarrow> AList.update k v al = al @ [(k, v)]"
  by (induction al) auto

lemma length_delete_distinct:
  "distinct (map fst al) \<Longrightarrow> (k, e) \<in> set al \<Longrightarrow> Suc (length (AList.delete k al)) = length al"
proof (induction al)
  case Nil
  then show ?case by simp
next
  case (Cons p al)
  show ?case
  proof (cases "fst p = k")
    case True
    then have "k \<notin> fst ` set al" using Cons.prems(1) by auto
    then have "AList.delete k al = al" by (simp add: delete_id)
    then show ?thesis using True by simp
  next
    case False
    then have "(k, e) \<in> set al" using Cons.prems(2) by auto
    then show ?thesis using Cons False by simp
  qed
qed

text \<open>
  When every stored entry was last accessed strictly before the clock reading taken in
  \<open>evictLeastRecentlyUsed\<close> and no entry is stored under the empty key, a \<open>set\<close> of a
  new key on a table that holds exactly \<open>maxSize\<close> entries removes one entry with the
  least \<open>accessedAt\<close>, appends the new entry, and leaves the size at \<open>maxSize\<close>.
\<close>

theorem eviction_when_clock_has_advanced:
  assumes "maxSize (config d) = Some m" and "0 < m" and "int (length (store d)) = m"
    and "distinct (map fst (store d))" and "[] \<notin> fst ` set (store d)"
    and "\<forall>(k, e) \<in> set (store d). accessedAt e < t_evict"
    and "entry_of d key = None"
  shows "\<exists>k e. (k, e) \<in> set (store d)
           \<and> (\<forall>(k', e') \<in> set (store d). accessedAt e \<le> accessedAt e')
           \<and> store (MemoryDriver_set now t_evict key v ttl d)
               = AList.delete k (store d)
                 @ [(getFullKey (options d) key,
                     \<lparr>val = v, expiresAt = expiry_of now (effectiveTtl ttl (options d)),
                      createdAt = now, accessedAt = now\<rparr>)]
           \<and> length (store (MemoryDriver_set now t_evict key v ttl d)) = length (store d)"
proof -
  let ?fk = "getFullKey (options d) key"
  let ?entry = "\<lparr>val = v, expiresAt = expiry_of now (effectiveTtl ttl (options d)),
                      createdAt = now, accessedAt = now\<rparr>"
  have nonempty: "store d \<noteq> []" using assms(2,3) by auto
  have new: "map_of (store d) ?fk = None" using assms(7) by (simp add: entry_of_def)
  then have notin: "?fk \<notin> fst ` set (store d)" by (simp add: map_of_eq_None_iff)
  obtain r where r: "evict_scan (store d) None t_evict = r" by simp
  from evict_scan_result [OF r] obtain k e where
    ke: "r = Some k" "(k, e) \<in> set (store d)"
        "\<forall>(k', e') \<in> set (store d). accessedAt e \<le> accessedAt e'"
  proof
    assume "r = None \<and> (\<forall>(k, e) \<in> set (store d). t_evict \<le> accessedAt e)"
    moreover obtain k0 e0 where "(k0, e0) \<in> set (store d)"
      using nonempty by (cases "store d") auto
    ultimately have False using assms(6) by fastforce
    then show ?thesis ..
  next
    assume "\<exists>k e. r = Some k \<and> (k, e) \<in> set (store d) \<and> accessedAt e < t_evict
            \<and> (\<forall>(k', e') \<in> set (store d). accessedAt e \<le> accessedAt e')"
    then show ?thesis using that by blast
  qed
  have knonempty: "k \<noteq> []" using ke(2) assms(5) by force
  have ev: "evictLeastRecentlyUsed t_evict d = d\<lparr>store := AList.delete k (store d)\<rparr>"
    using r ke(1) knonempty by (simp add: evictLeastRecentlyUsed_def)
  have notin': "?fk \<notin> fst ` set (AList.delete k (store d))"
    using notin by (simp add: keys_AList_delete)
  have st: "store (MemoryDriver_set now t_evict key v ttl d)
              = AList.delete k (store d) @ [(?fk, ?entry)]"
    using assms(1,2,3) new ev notin'
    by (simp add: MemoryDriver_set_def Let_def update_new_key)
  have len: "length (store (MemoryDriver_set now t_evict key v ttl d)) = length (store d)"
    using st length_delete_distinct [OF assms(4) ke(2)] by simp
  from ke(2,3) st len show ?thesis by blast
qed

text \<open>The scenario: capacity 2, insert A, insert B, read A, insert C. B is evicted, A
  and C remain.\<close>

lemma scenario_driver_eq:
  "scenario_driver =
     \<lparr>store = [(''A'', \<lparr>val = JNumber 1, expiresAt = Some 3600001, createdAt = 1,
                        accessedAt = 3\<rparr>),
               (''B'', \<lparr>val = JNumber 2, expiresAt = Some 3600002, createdAt = 2,
                        accessedAt = 2\<rparr>)],
      config = \<lparr>maxSize = Some 2, cleanupInterval = None\<rparr>,
      options = \<lparr>keyPrefix = Some [], defaultTtl = Some 3600, errorMode = Some Strict,
                 reconnect = None\<rparr>,
      cleanupTimer = None,
      stats = \<lparr>hits = 1, misses = 0, sets = 2, deletes = 0\<rparr>\<rparr>"
  by (simp add: scenario_driver_def memory_eval update_conv')

theorem eviction_when_clock_has_advanced_witness:
  "maxSize (config scenario_driver) = Some 2
   \<and> int (length (store scenario_driver)) = 2
   \<and> distinct (map fst (store scenario_driver))
   \<and> [] \<notin> fst ` set (store scenario_driver)
   \<and> list_all (\<lambda>(k, e). accessedAt e < 4) (store scenario_driver)
   \<and> entry_of scenario_driver ''C'' = None
   \<and> length (store (MemoryDriver_set 4 4 ''C'' (JNumber 3) None scenario_driver)) = 2
   \<and> map fst (store (MemoryDriver_set 4 4 ''C'' (JNumber 3) None scenario_driver))
       = [''A'', ''C'']"
proof -
  have h1: "maxSize (config scenario_driver) = Some 2"
    and h3: "int (length (store scenario_driver)) = 2"
    and h4: "distinct (map fst (store scenario_driver))"
    and h5: "[] \<notin> fst ` set (store scenario_driver)"
    and h6: "\<forall>(k, e) \<in> set (store scenario_driver). accessedAt e < 4"
    and h7: "entry_of scenario_driver ''C'' = None"
    by (simp_all add: scenario_driver_eq entry_of_def getFullKey_def)
  have h2: "(0::int) < 2" by simp
  have keys: "map fst (store (MemoryDriver_set 4 4 ''C'' (JNumber 3) None scenario_driver))
       = [''A'', ''C'']"
    by (simp add: scenario_driver_eq memory_eval)
  from eviction_when_clock_has_advanced [OF h1 h2 h3 h4 h5 h6 h7, of 4 "JNumber 3" None]
  have "length (store (MemoryDriver_set 4 4 ''C'' (JNumber 3) None scenario_driver)) = 2"
    using h3 by auto
  with h1 h3 h4 h5 h6 h7 keys show ?thesis
    by (simp add: list_all_iff)
qed

section \<open>The reconnection state machine\<close>

lemma maxRetries_of_cong:
  "redis_options d' = redis_options d \<Longrightarrow> maxRetries_of d' = maxRetries_of d"
  by (simp add: maxRetries_of_def)

lemma options_scheduleReconnect [simp]:
  "redis_options (scheduleReconnect d) = redis_options d"
  by (simp add: scheduleReconnect_def setTimeout_def Let_def)

lemma options_handleConnectionError [simp]:
  "redis_options (handleConnectionError d) = redis_options d"
  by (simp add: handleConnectionError_def Let_def)

lemma options_disconnect [simp]:
  "redis_options (RedisDriver_disconnect d) = redis_options d"
  by (simp add: RedisDriver_disconnect_def clearTimeout_def Let_def split: option.splits)

lemma options_step [simp]: "redis_options (redis_step ev d) = redis_options d"
  by (cases ev)
     (auto simp: on_connect_def timeout_callback_def reconnect_settled_def
        RedisDriver_initialize_def RedisDriver_reconnect_def clearTimeout_def Let_def
        split: option.splits)

lemma options_run [simp]: "redis_options (redis_run evs d) = redis_options d"
  by (induction evs arbitrary: d) auto

lemma maxRetries_of_step [simp]: "maxRetries_of (redis_step ev d) = maxRetries_of d"
  by (simp add: maxRetries_of_def)

lemma maxRetries_of_run [simp]: "maxRetries_of (redis_run evs d) = maxRetries_of d"
  by (simp add: maxRetries_of_def)

lemma filter_single:
  "map fst ps = [h] \<Longrightarrow> filter (\<lambda>(h', delay). h' \<noteq> h) ps = []"
  by (cases ps) auto

lemma inv_handleConnectionError:
  "redis_inv d \<Longrightarrow> redis_inv (handleConnectionError d)"
  by (auto simp: redis_inv_def handleConnectionError_def scheduleReconnect_def
      setTimeout_def maxRetries_of_def Let_def split: option.splits)

lemma inv_disconnect: "redis_inv d \<Longrightarrow> redis_inv (RedisDriver_disconnect d)"
  by (auto simp: redis_inv_def RedisDriver_disconnect_def clearTimeout_def
      maxRetries_of_def filter_single Let_def split: option.splits)

lemma inv_on_connect: "redis_inv d \<Longrightarrow> redis_inv (on_connect d)"
  by (auto simp: redis_inv_def on_connect_def clearTimeout_def
      maxRetries_of_def filter_single Let_def split: option.splits)

lemma inv_timeout_callback: "redis_inv d \<Longrightarrow> redis_inv (timeout_callback h d)"
  by (auto simp: redis_inv_def timeout_callback_def RedisDriver_disconnect_def clearTimeout_def
      maxRetries_of_def filter_single Let_def split: option.splits)

lemma inv_initialize: "redis_inv d \<Longrightarrow> redis_inv (snd (RedisDriver_initialize c d))"
  by (auto simp: redis_inv_def RedisDriver_initialize_def maxRetries_of_def
      split: option.splits)

lemma inv_isConnecting: "redis_inv d \<Longrightarrow> redis_inv (d\<lparr>isConnecting := b\<rparr>)"
  by (auto simp: redis_inv_def maxRetries_of_def split: option.splits)

lemma inv_reconnect_settled: "redis_inv d \<Longrightarrow> redis_inv (reconnect_settled c d)"
  using inv_initialize [of d c]
  by (cases "RedisDriver_initialize c d")
     (auto simp: reconnect_settled_def intro: inv_handleConnectionError inv_isConnecting
        split: bool.splits)

lemma inv_step: "redis_inv d \<Longrightarrow> redis_inv (redis_step ev d)"
  by (cases ev)
     (auto simp: RedisDriver_reconnect_def
        intro: inv_handleConnectionError inv_disconnect inv_on_connect inv_timeout_callback
          inv_reconnect_settled inv_initialize)

lemma inv_run: "redis_inv d \<Longrightarrow> redis_inv (redis_run evs d)"
  by (induction evs arbitrary: d) (auto intro: inv_step)

lemma inv_new: "0 \<le> maxRetries_of (RedisDriver_new opts) \<Longrightarrow> redis_inv (RedisDriver_new opts)"
  by (simp add: redis_inv_def) (simp add: RedisDriver_new_def)

lemma exhausted_step:
  "exhausted d \<Longrightarrow> failure_event ev \<Longrightarrow>
     exhausted (redis_step ev d) \<and> reconnectAttempts (redis_step ev d) = reconnectAttempts d"
  by (cases ev)
     (auto simp: exhausted_def handleConnectionError_def timeout_callback_def
        reconnect_settled_def RedisDriver_initialize_def maxRetries_of_def Let_def
        split: option.splits)

lemma exhausted_run:
  "exhausted d \<Longrightarrow> list_all failure_event fs \<Longrightarrow>
     exhausted (redis_run fs d) \<and> reconnectAttempts (redis_run fs d) = reconnectAttempts d"
proof (induction fs arbitrary: d)
  case Nil
  then show ?case by simp
next
  case (Cons ev fs)
  then have "exhausted (redis_step ev d)" "reconnectAttempts (redis_step ev d) = reconnectAttempts d"
    using exhausted_step [of d ev] by auto
  with Cons show ?case by auto
qed

lemma inv_exhausted:
  "redis_inv d \<Longrightarrow> maxRetries_of d \<le> int (reconnectAttempts d) \<Longrightarrow> exhausted d"
  by (auto simp: redis_inv_def exhausted_def split: option.splits)

lemma tinv_handleConnectionError:
  "timer_inv d \<Longrightarrow> timer_inv (handleConnectionError d)"
  by (auto simp: timer_inv_def handleConnectionError_def scheduleReconnect_def
      setTimeout_def Let_def split: option.splits)

lemma tinv_disconnect: "timer_inv d \<Longrightarrow> timer_inv (RedisDriver_disconnect d)"
  by (auto simp: timer_inv_def RedisDriver_disconnect_def clearTimeout_def
      filter_single Let_def split: option.splits)

lemma tinv_on_connect: "timer_inv d \<Longrightarrow> timer_inv (on_connect d)"
  by (auto simp: timer_inv_def on_connect_def clearTimeout_def
      filter_single Let_def split: option.splits)

lemma tinv_timeout_callback: "timer_inv d \<Longrightarrow> timer_inv (timeout_callback h d)"
  by (auto simp: timer_inv_def timeout_callback_def RedisDriver_disconnect_def clearTimeout_def
      filter_single Let_def split: option.splits)

lemma tinv_initialize: "timer_inv d \<Longrightarrow> timer_inv (snd (RedisDriver_initialize c d))"
  by (auto simp: timer_inv_def RedisDriver_initialize_def split: option.splits)

lemma tinv_isConnecting: "timer_inv d \<Longrightarrow> timer_inv (d\<lparr>isConnecting := b\<rparr>)"
  by (auto simp: timer_inv_def split: option.splits)

lemma tinv_reconnect_settled: "timer_inv d \<Longrightarrow> timer_inv (reconnect_settled c d)"
  using tinv_initialize [of d c]
  by (cases "RedisDriver_initialize c d")
     (auto simp: reconnect_settled_def intro: tinv_handleConnectionError tinv_isConnecting
        split: bool.splits)

lemma tinv_step: "timer_inv d \<Longrightarrow> timer_inv (redis_step ev d)"
  by (cases ev)
     (auto simp: RedisDriver_reconnect_def
        intro: tinv_handleConnectionError tinv_disconnect tinv_on_connect tinv_timeout_callback
          tinv_reconnect_settled tinv_initialize)

lemma tinv_run: "timer_inv d \<Longrightarrow> timer_inv (redis_run evs d)"
  by (induction evs arbitrary: d) (auto intro: tinv_step)

lemma tinv_new: "timer_inv (RedisDriver_new opts)"
  by (simp add: timer_inv_def RedisDriver_new_def)

lemma tinv_length: "timer_inv d \<Longrightarrow> length (pendingTimeouts d) \<le> 1"
proof -
  assume "timer_inv d"
  then have "length (map fst (pendingTimeouts d)) \<le> 1"
    by (simp add: timer_inv_def split: option.splits)
  then show ?thesis by simp
qed

lemmas redis_eval = redis_run.simps redis_step.simps handleConnectionError_def
  scheduleReconnect_def setTimeout_def clearTimeout_def timeout_callback_def
  reconnect_settled_def RedisDriver_initialize_def RedisDriver_disconnect_def
  RedisDriver_reconnect_def on_connect_def RedisDriver_new_def maxRetries_of_def Let_def

lemma retry2_after_three_failures:
  "redis_run three_failures retry2_driver =
     retry2_driver\<lparr>client := Some \<lparr>isOpen = False, isReady = False\<rparr>,
                   reconnectAttempts := 2, nextHandle := 2\<rparr>"
  by (simp add: three_failures_def retry2_driver_def redis_eval)

text \<open>
  C5. Let \<open>s\<close> be any state a newly constructed driver reaches through any sequence of
  events, under a bound \<open>maxRetries\<close> that is not negative. Then \<open>reconnectAttempts\<close>
  is at most \<open>maxRetries\<close>; once it has reached \<open>maxRetries\<close>, every further sequence
  of failures (error and end events, failed reconnections, firing timeouts) leaves no
  timeout pending and the counter unchanged; and an explicit \<open>reconnect()\<close> that
  connects resets the counter to zero. In particular, with \<open>maxRetries = 2\<close>,
  \<open>retryDelay = 100\<close> and exponential backoff, three consecutive failures leave the
  driver with \<open>reconnectAttempts = 2\<close> and nothing scheduled.
\<close>

theorem C5_attempts_never_exceed_maxRetries:
  fixes opts :: DriverOptions and evs fs :: "redis_event list"
  defines "s \<equiv> redis_run evs (RedisDriver_new opts)"
  shows "(0 \<le> maxRetries_of s \<longrightarrow>
            int (reconnectAttempts s) \<le> maxRetries_of s
          \<and> (maxRetries_of s \<le> int (reconnectAttempts s) \<and> list_all failure_event fs \<longrightarrow>
                pendingTimeouts (redis_run fs s) = []
              \<and> reconnectTimer (redis_run fs s) = None
              \<and> reconnectAttempts (redis_run fs s) = reconnectAttempts s)
          \<and> reconnectAttempts (redis_step (CallReconnect True) s) = 0)
       \<and> reconnectAttempts (redis_run three_failures retry2_driver) = 2
       \<and> reconnectTimer (redis_run three_failures retry2_driver) = None
       \<and> pendingTimeouts (redis_run three_failures retry2_driver) = []"
proof -
  have general: "int (reconnectAttempts s) \<le> maxRetries_of s
          \<and> (maxRetries_of s \<le> int (reconnectAttempts s) \<and> list_all failure_event fs \<longrightarrow>
                pendingTimeouts (redis_run fs s) = []
              \<and> reconnectTimer (redis_run fs s) = None
              \<and> reconnectAttempts (redis_run fs s) = reconnectAttempts s)
          \<and> reconnectAttempts (redis_step (CallReconnect True) s) = 0"
    if nonneg: "0 \<le> maxRetries_of s"
  proof -
    have "0 \<le> maxRetries_of (RedisDriver_new opts)"
      using nonneg by (simp add: s_def)
    then have inv: "redis_inv s"
      unfolding s_def by (intro inv_run inv_new)
    have bound: "int (reconnectAttempts s) \<le> maxRetries_of s"
      using inv by (simp add: redis_inv_def)
    have stuck: "pendingTimeouts (redis_run fs s) = []
              \<and> reconnectTimer (redis_run fs s) = None
              \<and> reconnectAttempts (redis_run fs s) = reconnectAttempts s"
      if "maxRetries_of s \<le> int (reconnectAttempts s)" and "list_all failure_event fs"
      using exhausted_run [OF inv_exhausted [OF inv that(1)] that(2)]
      by (simp add: exhausted_def)
    have manual: "reconnectAttempts (redis_step (CallReconnect True) s) = 0"
      by (simp add: RedisDriver_reconnect_def RedisDriver_initialize_def)
    from bound stuck manual show ?thesis by blast
  qed
  have scenario: "reconnectAttempts (redis_run three_failures retry2_driver) = 2
       \<and> reconnectTimer (redis_run three_failures retry2_driver) = None
       \<and> pendingTimeouts (redis_run three_failures retry2_driver) = []"
    by (simp add: retry2_after_three_failures) (simp add: retry2_driver_def RedisDriver_new_def)
  from general scenario show ?thesis by blast
qed


theorem C5_attempts_never_exceed_maxRetries_witness:
  "0 \<le> maxRetries_of (redis_run three_failures retry2_driver)
   \<and> int (reconnectAttempts (redis_run three_failures retry2_driver)) \<le> 2
   \<and> maxRetries_of (redis_run three_failures retry2_driver)
       \<le> int (reconnectAttempts (redis_run three_failures retry2_driver))
   \<and> list_all failure_event [ClientError, ClientEnd, TimeoutFired 1, ReconnectSettled False]
   \<and> pendingTimeouts (redis_run [ClientError, ClientEnd, TimeoutFired 1, ReconnectSettled False]
                        (redis_run three_failures retry2_driver)) = []
   \<and> reconnectAttempts (redis_run [ClientError, ClientEnd, TimeoutFired 1, ReconnectSettled False]
                        (redis_run three_failures retry2_driver)) = 2"
proof -
  let ?opts = "\<lparr>keyPrefix = None, defaultTtl = None, errorMode = None,
        reconnect = Some \<lparr>maxRetries = Some 2, retryDelay = Some 100,
                          exponentialBackoff = Some True\<rparr>\<rparr>"
  let ?fs = "[ClientError, ClientEnd, TimeoutFired 1, ReconnectSettled False]"
  have m: "maxRetries_of (redis_run three_failures retry2_driver) = 2"
    by (simp add: retry2_driver_def RedisDriver_new_def maxRetries_of_def)
  have a: "reconnectAttempts (redis_run three_failures retry2_driver) = 2"
    by (simp add: retry2_after_three_failures)
  have f: "list_all failure_event ?fs"
    by simp
  from C5_attempts_never_exceed_maxRetries [where opts = ?opts and evs = three_failures and fs = ?fs] m a f
  show ?thesis
    by (simp add: retry2_driver_def [symmetric])
qed

text \<open>
  C7, as the code has it. When \<open>scheduleReconnect\<close> runs with no timer pending, it
  schedules exactly one timeout, whose delay is
  \<open>retryDelay * 2 ^ min(reconnectAttempts, 6)\<close> when exponential backoff is on (the
  default) and \<open>retryDelay\<close> otherwise (\<open>retryDelay\<close> defaults to 1000), and leaves
  the counter as it is. \<open>handleConnectionError\<close> does just that when it runs with a
  reconnect policy \<open>r\<close>, no reconnection in progress and \<open>reconnectAttempts\<close> below
  the bound. While a reconnection is in progress (\<open>isConnecting\<close>),
  \<open>handleConnectionError\<close> changes nothing, so a failure arriving then schedules
  nothing. When a timer is pending, \<open>handleConnectionError\<close> and \<open>scheduleReconnect\<close>
  change nothing. In every state a newly constructed driver reaches, at most one
  timeout is pending.
\<close>

theorem C7_backoff_delay_single_timer:
  "(reconnect (redis_options d) = Some r \<and> reconnectTimer d = None \<longrightarrow>
        pendingTimeouts (scheduleReconnect d)
          = pendingTimeouts d
            @ [(nextHandle d,
                spec_delay (case retryDelay r of None \<Rightarrow> 1000 | Some x \<Rightarrow> x)
                           (case exponentialBackoff r of None \<Rightarrow> True | Some b \<Rightarrow> b)
                           (reconnectAttempts d))]
      \<and> reconnectTimer (scheduleReconnect d) = Some (nextHandle d)
      \<and> reconnectAttempts (scheduleReconnect d) = reconnectAttempts d
      \<and> (\<not> isConnecting d \<and> int (reconnectAttempts d) < maxRetries_of d \<longrightarrow>
            handleConnectionError d = scheduleReconnect d))
   \<and> (isConnecting dc \<longrightarrow> handleConnectionError dc = dc)
   \<and> (reconnectTimer d' \<noteq> None \<longrightarrow>
        handleConnectionError d' = d' \<and> scheduleReconnect d' = d')
   \<and> length (pendingTimeouts (redis_run evs (RedisDriver_new opts))) \<le> 1"
proof -
  have g: "handleConnectionError dc = dc" if "isConnecting dc"
    using that by (simp add: handleConnectionError_def)
  have a: "pendingTimeouts (scheduleReconnect d)
          = pendingTimeouts d
            @ [(nextHandle d,
                spec_delay (case retryDelay r of None \<Rightarrow> 1000 | Some x \<Rightarrow> x)
                           (case exponentialBackoff r of None \<Rightarrow> True | Some b \<Rightarrow> b)
                           (reconnectAttempts d))]
      \<and> reconnectTimer (scheduleReconnect d) = Some (nextHandle d)
      \<and> reconnectAttempts (scheduleReconnect d) = reconnectAttempts d"
    if "reconnect (redis_options d) = Some r" "reconnectTimer d = None"
    using that
    by (simp add: scheduleReconnect_def setTimeout_def spec_delay_def Let_def)
  have a': "handleConnectionError d = scheduleReconnect d"
    if "reconnect (redis_options d) = Some r" "\<not> isConnecting d"
       "int (reconnectAttempts d) < maxRetries_of d"
    using that
    by (simp add: handleConnectionError_def maxRetries_of_def Let_def)
  have b: "handleConnectionError d' = d' \<and> scheduleReconnect d' = d'"
    if "reconnectTimer d' \<noteq> None"
    using that by (simp add: handleConnectionError_def scheduleReconnect_def Let_def)
  have c: "length (pendingTimeouts (redis_run evs (RedisDriver_new opts))) \<le> 1"
    by (intro tinv_length tinv_run tinv_new)
  from a a' g b c show ?thesis by blast
qed

text \<open>The driver of the scenario after one failed attempt: the second timeout is set to
  \<open>100 * 2^1\<close>. After a first failure a timer is pending, and a further failure changes
  nothing.\<close>

theorem C7_backoff_delay_single_timer_witness:
  "reconnect (redis_options (retry2_driver\<lparr>reconnectAttempts := 1\<rparr>))
     = Some \<lparr>maxRetries = Some 2, retryDelay = Some 100, exponentialBackoff = Some True\<rparr>
   \<and> \<not> isConnecting (retry2_driver\<lparr>reconnectAttempts := 1\<rparr>)
   \<and> int (reconnectAttempts (retry2_driver\<lparr>reconnectAttempts := 1\<rparr>))
       < maxRetries_of (retry2_driver\<lparr>reconnectAttempts := 1\<rparr>)
   \<and> reconnectTimer (retry2_driver\<lparr>reconnectAttempts := 1\<rparr>) = None
   \<and> pendingTimeouts (handleConnectionError (retry2_driver\<lparr>reconnectAttempts := 1\<rparr>))
       = [(0, 200)]
   \<and> reconnectTimer (redis_run [ClientError] retry2_driver) \<noteq> None
   \<and> handleConnectionError (redis_run [ClientError] retry2_driver)
       = redis_run [ClientError] retry2_driver
   \<and> isConnecting (redis_run [ClientError, TimeoutFired 0] retry2_driver)
   \<and> handleConnectionError (redis_run [ClientError, TimeoutFired 0] retry2_driver)
       = redis_run [ClientError, TimeoutFired 0] retry2_driver
   \<and> length (pendingTimeouts (redis_run three_failures retry2_driver)) \<le> 1"
proof -
  let ?dc = "redis_run [ClientError, TimeoutFired 0] retry2_driver"
  have h6: "isConnecting ?dc"
    by (simp add: retry2_driver_def redis_eval)
  let ?d = "retry2_driver\<lparr>reconnectAttempts := 1\<rparr>"
  let ?r = "\<lparr>maxRetries = Some 2, retryDelay = Some 100, exponentialBackoff = Some True\<rparr>"
  let ?d' = "redis_run [ClientError] retry2_driver"
  have h1: "reconnect (redis_options ?d) = Some ?r"
    by (simp add: retry2_driver_def RedisDriver_new_def)
  have h2: "\<not> isConnecting ?d"
    by (simp add: retry2_driver_def RedisDriver_new_def)
  have h3: "int (reconnectAttempts ?d) < maxRetries_of ?d"
    by (simp add: retry2_driver_def RedisDriver_new_def maxRetries_of_def)
  have h4: "reconnectTimer ?d = None"
    by (simp add: retry2_driver_def RedisDriver_new_def)
  have h5: "reconnectTimer ?d' \<noteq> None"
    by (simp add: retry2_driver_def redis_eval)
  have p: "pendingTimeouts ?d = []" "nextHandle ?d = 0"
    by (simp_all add: retry2_driver_def RedisDriver_new_def)
  from C7_backoff_delay_single_timer
         [where d = ?d and r = ?r and d' = ?d' and dc = ?dc and evs = three_failures
            and opts = "\<lparr>keyPrefix = None, defaultTtl = None, errorMode = None,
                          reconnect = Some ?r\<rparr>"]
       h1 h2 h3 h4 h5 h6 p
  show ?thesis
    by (simp add: retry2_driver_def [symmetric] spec_delay_def)
qed

text \<open>The claim as written fails while a reconnection is in progress. After the
  connection is lost and the first timeout has fired, reconnection is enabled, the
  counter is 1, below the bound 2, and no timer is pending; yet an \<open>error\<close> or \<open>end\<close>
  event arriving then schedules no reconnection attempt.\<close>

theorem C7_failure_during_reconnection_schedules_nothing:
  "reconnect (redis_options (redis_run [ClientError, TimeoutFired 0] retry2_driver)) \<noteq> None
   \<and> reconnectAttempts (redis_run [ClientError, TimeoutFired 0] retry2_driver) = 1
   \<and> maxRetries_of (redis_run [ClientError, TimeoutFired 0] retry2_driver) = 2
   \<and> reconnectTimer (redis_run [ClientError, TimeoutFired 0] retry2_driver) = None
   \<and> pendingTimeouts (redis_run [ClientError, TimeoutFired 0] retry2_driver) = []
   \<and> isConnecting (redis_run [ClientError, TimeoutFired 0] retry2_driver)
   \<and> pendingTimeouts (redis_run [ClientError, TimeoutFired 0, ClientError] retry2_driver) = []
   \<and> pendingTimeouts (redis_run [ClientError, TimeoutFired 0, ClientEnd] retry2_driver) = []
   \<and> reconnectTimer (redis_run [ClientError, TimeoutFired 0, ClientError] retry2_driver) = None"
  by (simp add: retry2_driver_def redis_eval)

section \<open>Acquiring a store\<close>

lemmas cache_eval = cache_run.simps cache_step.simps getStoreInstance_begin_def
  getStoreInstance_resume_def createDriver_def counting_driver_def one_store_config_def
  configured_def initialize_calls_def not_initialized_def Let_def

lemmas manager_eval = manager_run.simps manager_step.simps getStore_begin_def
  getStore_resume_def StoreManager_createDriver_def counting_factory_def new_manager_def
  one_store_config_def Let_def

lemma begin_initialized:
  assumes "cache_config c = Some cfg" and "map_of (config_stores cfg) s = Some sc"
    and "map_of (stores c) s = Some inst" and "initialized inst"
  shows "getStoreInstance_begin drv s c = (Inr Ready, c)"
  using assms by (simp add: getStoreInstance_begin_def)

lemma run_initialized:
  assumes "cache_config c = Some cfg" and "map_of (config_stores cfg) s = Some sc"
    and "map_of (stores c) s = Some inst" and "initialized inst"
  shows "cache_run drv (replicate n (Acquire s)) c = c"
  using begin_initialized [OF assms, of drv]
  by (induction n) simp_all

lemma first_call:
  assumes "cache_config c = Some cfg" and "map_of (config_stores cfg) s = Some sc"
    and "map_of (stores c) s = None" and "createDriver drv cfg sc s = Inr fresh"
  shows "cache_config (cache_run drv [Acquire s, Settle s None] c) = Some cfg"
    and "map_of (stores (cache_run drv [Acquire s, Settle s None] c)) s
           = Some \<lparr>driver = initialize drv fresh, instance_config = sc, initialized = True\<rparr>"
  using assms
  by (simp_all add: getStoreInstance_begin_def getStoreInstance_resume_def Let_def
      update_conv' map_of_map_entry)

lemma cache_run_append: "cache_run drv (xs @ ys) c = cache_run drv ys (cache_run drv xs c)"
  by (induction xs arbitrary: c) simp_all

lemma cache_sequence:
  assumes h: "cache_config c = Some cfg" "map_of (config_stores cfg) s = Some sc"
    "map_of (stores c) s = None" "createDriver drv cfg sc s = Inr fresh"
  shows "map_of (stores (cache_run drv ([Acquire s, Settle s None] @ replicate n (Acquire s)) c)) s
          = Some \<lparr>driver = initialize drv fresh, instance_config = sc, initialized = True\<rparr>"
proof -
  let ?c1 = "cache_run drv [Acquire s, Settle s None] c"
  let ?i = "\<lparr>driver = initialize drv fresh, instance_config = sc, initialized = True\<rparr>"
  have 1: "cache_config ?c1 = Some cfg" and 2: "map_of (stores ?c1) s = Some ?i"
    using first_call [OF h] by auto
  have "cache_run drv (replicate n (Acquire s)) ?c1 = ?c1"
    by (rule run_initialized [OF 1 h(2) 2]) simp
  then show ?thesis
    using 2 by (simp only: cache_run_append)
qed

lemma manager_begin_initialized:
  assumes "map_of (config_stores (manager_config m)) s = Some sc"
    and "map_of (manager_stores m) s = Some inst" and "initialized inst"
  shows "getStore_begin ini fac s m = (Inr Ready, m)"
  using assms by (simp add: getStore_begin_def)

lemma manager_run_initialized:
  assumes "map_of (config_stores (manager_config m)) s = Some sc"
    and "map_of (manager_stores m) s = Some inst" and "initialized inst"
  shows "manager_run ini fac (replicate n (Acquire s)) m = m"
  using manager_begin_initialized [OF assms, of ini fac]
  by (induction n) simp_all

lemma manager_first_call:
  assumes "map_of (config_stores (manager_config m)) s = Some sc"
    and "map_of (manager_stores m) s = None"
    and "StoreManager_createDriver fac (manager_config m) sc s = Inr fresh"
  shows "manager_config (manager_run ini fac [Acquire s, Settle s None] m) = manager_config m"
    and "map_of (manager_stores (manager_run ini fac [Acquire s, Settle s None] m)) s
           = Some \<lparr>driver = ini fresh, instance_config = sc, initialized = True\<rparr>"
  using assms
  by (simp_all add: getStore_begin_def getStore_resume_def Let_def
      update_conv' map_of_map_entry)

lemma manager_run_append:
  "manager_run ini fac (xs @ ys) m = manager_run ini fac ys (manager_run ini fac xs m)"
  by (induction xs arbitrary: m) simp_all

lemma manager_sequence:
  assumes h: "map_of (config_stores (manager_config m)) s = Some sc"
    "map_of (manager_stores m) s = None"
    "StoreManager_createDriver fac (manager_config m) sc s = Inr fresh"
  shows "map_of (manager_stores
            (manager_run ini fac ([Acquire s, Settle s None] @ replicate n (Acquire s)) m)) s
          = Some \<lparr>driver = ini fresh, instance_config = sc, initialized = True\<rparr>"
proof -
  let ?m1 = "manager_run ini fac [Acquire s, Settle s None] m"
  let ?i = "\<lparr>driver = ini fresh, instance_config = sc, initialized = True\<rparr>"
  have 1: "map_of (config_stores (manager_config ?m1)) s = Some sc"
    and 2: "map_of (manager_stores ?m1) s = Some ?i"
    using manager_first_call [OF h, of ini] h(1) by auto
  have "manager_run ini fac (replicate n (Acquire s)) ?m1 = ?m1"
    by (rule manager_run_initialized [OF 1 2]) simp
  then show ?thesis
    using 2 by (simp only: manager_run_append)
qed

lemma getStoreInstance_initialized:
  assumes "cache_config c = Some cfg" and "map_of (config_stores cfg) s = Some sc"
    and "map_of (stores c) s = Some inst" and "initialized inst"
  shows "getStoreInstance drv outcome s c = (Inr (), c)"
  using begin_initialized [OF assms, of drv] by (simp add: getStoreInstance_def)

lemma calls_initialized:
  assumes "cache_config c = Some cfg" and "map_of (config_stores cfg) s = Some sc"
    and "map_of (stores c) s = Some inst" and "initialized inst"
  shows "calls_in_sequence drv s outcomes c = c"
  using getStoreInstance_initialized [OF assms, of drv]
  by (induction outcomes) simp_all

lemma getStoreInstance_uninitialized:
  assumes "cache_config c = Some cfg" and "map_of (config_stores cfg) s = Some sc"
    and "map_of (stores c) s = Some \<lparr>driver = d, instance_config = sc, initialized = False\<rparr>"
  shows "cache_config (snd (getStoreInstance drv outcome s c)) = Some cfg"
    and "map_of (stores (snd (getStoreInstance drv outcome s c))) s
           = Some \<lparr>driver = initialize drv d, instance_config = sc,
                   initialized = (outcome = None)\<rparr>"
  using assms
  by (auto simp: getStoreInstance_def getStoreInstance_begin_def getStoreInstance_resume_def
      update_conv' map_of_map_entry split: option.splits)

lemma calls_uninitialized:
  assumes "cache_config c = Some cfg" and "map_of (config_stores cfg) s = Some sc"
    and "map_of (stores c) s = Some \<lparr>driver = d, instance_config = sc, initialized = False\<rparr>"
  shows "map_of (stores (calls_in_sequence drv s outcomes c)) s
           = Some \<lparr>driver = (initialize drv ^^ calls_until_resolved outcomes) d,
                   instance_config = sc, initialized = (None \<in> set outcomes)\<rparr>"
  using assms
proof (induction outcomes arbitrary: c d)
  case Nil
  then show ?case by simp
next
  case (Cons outcome outcomes)
  let ?c1 = "snd (getStoreInstance drv outcome s c)"
  have cfg1: "cache_config ?c1 = Some cfg"
    and inst1: "map_of (stores ?c1) s
           = Some \<lparr>driver = initialize drv d, instance_config = sc,
                   initialized = (outcome = None)\<rparr>"
    using getStoreInstance_uninitialized [OF Cons.prems, of drv outcome] by auto
  show ?case
  proof (cases outcome)
    case None
    have "calls_in_sequence drv s outcomes ?c1 = ?c1"
      by (rule calls_initialized [OF cfg1 Cons.prems(2) inst1]) (simp add: None)
    then show ?thesis using inst1 None by simp
  next
    case (Some msg)
    have inst1': "map_of (stores ?c1) s
           = Some \<lparr>driver = initialize drv d, instance_config = sc, initialized = False\<rparr>"
      using inst1 Some by simp
    from Cons.IH [OF cfg1 Cons.prems(2) inst1'] Some
    show ?thesis by (simp add: funpow_swap1)
  qed
qed

lemma getStoreInstance_absent:
  assumes "cache_config c = Some cfg" and "map_of (config_stores cfg) s = Some sc"
    and "map_of (stores c) s = None" and "createDriver drv cfg sc s = Inr fresh"
  shows "getStoreInstance drv outcome s c
           = getStoreInstance drv outcome s
               (c\<lparr>stores := AList.update s
                     \<lparr>driver = fresh, instance_config = sc, initialized = False\<rparr> (stores c)\<rparr>)"
  using assms
  by (simp add: getStoreInstance_def getStoreInstance_begin_def Let_def update_conv')

lemma calls_absent:
  assumes "cache_config c = Some cfg" and "map_of (config_stores cfg) s = Some sc"
    and "map_of (stores c) s = None" and "createDriver drv cfg sc s = Inr fresh"
    and "outcomes \<noteq> []"
  shows "map_of (stores (calls_in_sequence drv s outcomes c)) s
           = Some \<lparr>driver = (initialize drv ^^ calls_until_resolved outcomes) fresh,
                   instance_config = sc, initialized = (None \<in> set outcomes)\<rparr>"
proof -
  let ?c0 = "c\<lparr>stores := AList.update s
                     \<lparr>driver = fresh, instance_config = sc, initialized = False\<rparr> (stores c)\<rparr>"
  obtain outcome rest where os: "outcomes = outcome # rest"
    using assms(5) by (cases outcomes) auto
  have "calls_in_sequence drv s outcomes c = calls_in_sequence drv s outcomes ?c0"
    using getStoreInstance_absent [OF assms(1-4), of outcome] by (simp add: os)
  moreover have "cache_config ?c0 = Some cfg" using assms(1) by simp
  moreover have "map_of (stores ?c0) s
      = Some \<lparr>driver = fresh, instance_config = sc, initialized = False\<rparr>"
    by (simp add: update_conv')
  ultimately show ?thesis
    using calls_uninitialized [of ?c0 cfg s sc fresh drv outcomes] assms(2) by simp
qed

lemma getStore_initialized:
  assumes "map_of (config_stores (manager_config m)) s = Some sc"
    and "map_of (manager_stores m) s = Some inst" and "initialized inst"
  shows "getStore ini fac outcome s m = (Inr (), m)"
  using manager_begin_initialized [OF assms, of ini fac] by (simp add: getStore_def)

lemma manager_calls_initialized:
  assumes "map_of (config_stores (manager_config m)) s = Some sc"
    and "map_of (manager_stores m) s = Some inst" and "initialized inst"
  shows "manager_calls_in_sequence ini fac s outcomes m = m"
  using getStore_initialized [OF assms, of ini fac]
  by (induction outcomes) simp_all

lemma getStore_uninitialized:
  assumes "map_of (config_stores (manager_config m)) s = Some sc"
    and "map_of (manager_stores m) s
           = Some \<lparr>driver = d, instance_config = sc, initialized = False\<rparr>"
  shows "manager_config (snd (getStore ini fac outcome s m)) = manager_config m"
    and "map_of (manager_stores (snd (getStore ini fac outcome s m))) s
           = Some \<lparr>driver = ini d, instance_config = sc, initialized = (outcome = None)\<rparr>"
  using assms
  by (auto simp: getStore_def getStore_begin_def getStore_resume_def
      update_conv' map_of_map_entry split: option.splits)

lemma manager_calls_uninitialized:
  assumes "map_of (config_stores (manager_config m)) s = Some sc"
    and "map_of (manager_stores m) s
           = Some \<lparr>driver = d, instance_config = sc, initialized = False\<rparr>"
  shows "map_of (manager_stores (manager_calls_in_sequence ini fac s outcomes m)) s
           = Some \<lparr>driver = (ini ^^ calls_until_resolved outcomes) d,
                   instance_config = sc, initialized = (None \<in> set outcomes)\<rparr>"
  using assms
proof (induction outcomes arbitrary: m d)
  case Nil
  then show ?case by simp
next
  case (Cons outcome outcomes)
  let ?m1 = "snd (getStore ini fac outcome s m)"
  have cfg1: "map_of (config_stores (manager_config ?m1)) s = Some sc"
    and inst1: "map_of (manager_stores ?m1) s
           = Some \<lparr>driver = ini d, instance_config = sc, initialized = (outcome = None)\<rparr>"
    using getStore_uninitialized [OF Cons.prems, of ini fac outcome] Cons.prems(1) by auto
  show ?case
  proof (cases outcome)
    case None
    have "manager_calls_in_sequence ini fac s outcomes ?m1 = ?m1"
      by (rule manager_calls_initialized [OF cfg1 inst1]) (simp add: None)
    then show ?thesis using inst1 None by simp
  next
    case (Some msg)
    have inst1': "map_of (manager_stores ?m1) s
           = Some \<lparr>driver = ini d, instance_config = sc, initialized = False\<rparr>"
      using inst1 Some by simp
    from Cons.IH [OF cfg1 inst1'] Some
    show ?thesis by (simp add: funpow_swap1)
  qed
qed

lemma getStore_absent:
  assumes "map_of (config_stores (manager_config m)) s = Some sc"
    and "map_of (manager_stores m) s = None"
    and "StoreManager_createDriver fac (manager_config m) sc s = Inr fresh"
  shows "getStore ini fac outcome s m
           = getStore ini fac outcome s
               (m\<lparr>manager_stores := AList.update s
                     \<lparr>driver = fresh, instance_config = sc, initialized = False\<rparr>
                     (manager_stores m)\<rparr>)"
  using assms
  by (simp add: getStore_def getStore_begin_def Let_def update_conv')

lemma manager_calls_absent:
  assumes "map_of (config_stores (manager_config m)) s = Some sc"
    and "map_of (manager_stores m) s = None"
    and "StoreManager_createDriver fac (manager_config m) sc s = Inr fresh"
    and "outcomes \<noteq> []"
  shows "map_of (manager_stores (manager_calls_in_sequence ini fac s outcomes m)) s
           = Some \<lparr>driver = (ini ^^ calls_until_resolved outcomes) fresh,
                   instance_config = sc, initialized = (None \<in> set outcomes)\<rparr>"
proof -
  let ?m0 = "m\<lparr>manager_stores := AList.update s
                     \<lparr>driver = fresh, instance_config = sc, initialized = False\<rparr>
                     (manager_stores m)\<rparr>"
  obtain outcome rest where os: "outcomes = outcome # rest"
    using assms(4) by (cases outcomes) auto
  have "manager_calls_in_sequence ini fac s outcomes m
          = manager_calls_in_sequence ini fac s outcomes ?m0"
    using getStore_absent [OF assms(1-3), of ini outcome] by (simp add: os)
  moreover have "map_of (manager_stores ?m0) s
      = Some \<lparr>driver = fresh, instance_config = sc, initialized = False\<rparr>"
    by (simp add: update_conv')
  ultimately show ?thesis
    using manager_calls_uninitialized [of ?m0 s sc fresh ini fac outcomes] assms(1) by simp
qed

text \<open>
  C6, as the code has it, for calls that do not overlap. A call of
  \<open>getStoreInstance(s)\<close> (or of the store manager's \<open>getStore(s)\<close>) that finds the
  instance of \<open>s\<close> marked initialized returns at once and changes nothing, however
  many such calls there are. Starting without an instance of \<open>s\<close>, the first call
  creates the driver \<open>fresh\<close>, and every call that finds the instance not yet marked
  initialized invokes \<open>initialize()\<close> on it exactly once: after the calls,
  \<open>initialize()\<close> has been invoked once by each call up to and including the first
  one whose \<open>initialize()\<close> resolved, and by no later call, and the instance is marked
  initialized exactly when one of them resolved. In particular, when the first
  \<open>initialize()\<close> resolves, it is invoked exactly once however many calls follow.
\<close>

theorem C6_initialize_once_per_call_until_resolved:
  "(cache_config c = Some cfg \<and> map_of (config_stores cfg) s = Some sc
      \<and> map_of (stores c) s = Some inst \<and> initialized inst \<longrightarrow>
        getStoreInstance_begin drv s c = (Inr Ready, c)
      \<and> calls_in_sequence drv s outcomes c = c)
   \<and> (cache_config c' = Some cfg \<and> map_of (config_stores cfg) s = Some sc
      \<and> map_of (stores c') s = None \<and> createDriver drv cfg sc s = Inr fresh \<longrightarrow>
        (outcomes \<noteq> [] \<longrightarrow>
           map_of (stores (calls_in_sequence drv s outcomes c')) s
             = Some \<lparr>driver = (initialize drv ^^ calls_until_resolved outcomes) fresh,
                     instance_config = sc, initialized = (None \<in> set outcomes)\<rparr>)
      \<and> map_of (stores (calls_in_sequence drv s (None # outcomes) c')) s
           = Some \<lparr>driver = initialize drv fresh, instance_config = sc, initialized = True\<rparr>
      \<and> map_of (stores (cache_run drv ([Acquire s, Settle s None] @ replicate n (Acquire s)) c')) s
           = Some \<lparr>driver = initialize drv fresh, instance_config = sc, initialized = True\<rparr>)
   \<and> (map_of (config_stores (manager_config m)) s = Some sc
      \<and> map_of (manager_stores m) s = Some inst \<and> initialized inst \<longrightarrow>
        getStore_begin ini fac s m = (Inr Ready, m)
      \<and> manager_calls_in_sequence ini fac s outcomes m = m)
   \<and> (map_of (config_stores (manager_config m')) s = Some sc
      \<and> map_of (manager_stores m') s = None
      \<and> StoreManager_createDriver fac (manager_config m') sc s = Inr fresh \<longrightarrow>
        (outcomes \<noteq> [] \<longrightarrow>
           map_of (manager_stores (manager_calls_in_sequence ini fac s outcomes m')) s
             = Some \<lparr>driver = (ini ^^ calls_until_resolved outcomes) fresh,
                     instance_config = sc, initialized = (None \<in> set outcomes)\<rparr>)
      \<and> map_of (manager_stores (manager_calls_in_sequence ini fac s (None # outcomes) m')) s
           = Some \<lparr>driver = ini fresh, instance_config = sc, initialized = True\<rparr>
      \<and> map_of (manager_stores
                  (manager_run ini fac ([Acquire s, Settle s None] @ replicate n (Acquire s)) m')) s
           = Some \<lparr>driver = ini fresh, instance_config = sc, initialized = True\<rparr>)"
proof -
  have a: "getStoreInstance_begin drv s c = (Inr Ready, c)
      \<and> calls_in_sequence drv s outcomes c = c"
    if "cache_config c = Some cfg" "map_of (config_stores cfg) s = Some sc"
       "map_of (stores c) s = Some inst" "initialized inst"
    using begin_initialized [OF that, of drv] calls_initialized [OF that, of drv outcomes]
    by simp
  have b: "(outcomes \<noteq> [] \<longrightarrow>
           map_of (stores (calls_in_sequence drv s outcomes c')) s
             = Some \<lparr>driver = (initialize drv ^^ calls_until_resolved outcomes) fresh,
                     instance_config = sc, initialized = (None \<in> set outcomes)\<rparr>)
      \<and> map_of (stores (calls_in_sequence drv s (None # outcomes) c')) s
           = Some \<lparr>driver = initialize drv fresh, instance_config = sc, initialized = True\<rparr>
      \<and> map_of (stores (cache_run drv ([Acquire s, Settle s None] @ replicate n (Acquire s)) c')) s
           = Some \<lparr>driver = initialize drv fresh, instance_config = sc, initialized = True\<rparr>"
    if h: "cache_config c' = Some cfg" "map_of (config_stores cfg) s = Some sc"
       "map_of (stores c') s = None" "createDriver drv cfg sc s = Inr fresh"
    using calls_absent [OF h, of outcomes] calls_absent [OF h, of "None # outcomes"]
      cache_sequence [OF h, of n]
    by simp
  have a': "getStore_begin ini fac s m = (Inr Ready, m)
      \<and> manager_calls_in_sequence ini fac s outcomes m = m"
    if "map_of (config_stores (manager_config m)) s = Some sc"
       "map_of (manager_stores m) s = Some inst" "initialized inst"
    using manager_begin_initialized [OF that, of ini fac]
      manager_calls_initialized [OF that, of ini fac outcomes]
    by simp
  have b': "(outcomes \<noteq> [] \<longrightarrow>
           map_of (manager_stores (manager_calls_in_sequence ini fac s outcomes m')) s
             = Some \<lparr>driver = (ini ^^ calls_until_resolved outcomes) fresh,
                     instance_config = sc, initialized = (None \<in> set outcomes)\<rparr>)
      \<and> map_of (manager_stores (manager_calls_in_sequence ini fac s (None # outcomes) m')) s
           = Some \<lparr>driver = ini fresh, instance_config = sc, initialized = True\<rparr>
      \<and> map_of (manager_stores
                  (manager_run ini fac ([Acquire s, Settle s None] @ replicate n (Acquire s)) m')) s
           = Some \<lparr>driver = ini fresh, instance_config = sc, initialized = True\<rparr>"
    if h: "map_of (config_stores (manager_config m')) s = Some sc"
       "map_of (manager_stores m') s = None"
       "StoreManager_createDriver fac (manager_config m') sc s = Inr fresh"
    using manager_calls_absent [OF h, of outcomes ini]
      manager_calls_absent [OF h, of "None # outcomes" ini]
      manager_sequence [OF h, of ini n]
    by simp
  from a b a' b' show ?thesis by blast
qed

text \<open>Three calls in sequence on the facade and on the store manager: when the first
  \<open>initialize()\<close> rejects and the second resolves, it has been invoked twice; when the
  first resolves, once.\<close>

theorem C6_initialize_once_per_call_until_resolved_witness:
  "cache_config configured = Some one_store_config
   \<and> map_of (config_stores one_store_config) ''main''
       = Some \<lparr>driver_type = Memory, store_defaultTtl = None, store_keyPrefix = None,
               store_errorMode = None, store_reconnect = None\<rparr>
   \<and> map_of (stores configured) ''main'' = None
   \<and> createDriver counting_driver one_store_config
        \<lparr>driver_type = Memory, store_defaultTtl = None, store_keyPrefix = None,
         store_errorMode = None, store_reconnect = None\<rparr> ''main'' = Inr 0
   \<and> [Some ''boom'', None, None] \<noteq> []
   \<and> initialize_calls
        (calls_in_sequence counting_driver ''main'' [Some ''boom'', None, None] configured)
        ''main'' = Some 2
   \<and> initialize_calls
        (calls_in_sequence counting_driver ''main'' [None, Some ''boom'', None, None] configured)
        ''main'' = Some 1
   \<and> map_of (manager_stores new_manager) ''main'' = None
   \<and> map_option driver
        (map_of (manager_stores
           (manager_calls_in_sequence Suc counting_factory ''main'' [Some ''boom'', None, None]
              new_manager)) ''main'') = Some 2
   \<and> map_option driver
        (map_of (manager_stores
           (manager_calls_in_sequence Suc counting_factory ''main''
              [None, Some ''boom'', None, None] new_manager)) ''main'') = Some 1
   \<and> map_option initialized
        (map_of (stores (cache_run counting_driver [Acquire ''main'', Settle ''main'' None]
                           configured)) ''main'') = Some True
   \<and> getStoreInstance_begin counting_driver ''main''
        (cache_run counting_driver [Acquire ''main'', Settle ''main'' None] configured)
       = (Inr Ready, cache_run counting_driver [Acquire ''main'', Settle ''main'' None] configured)
   \<and> getStore_begin Suc counting_factory ''main''
        (manager_run Suc counting_factory [Acquire ''main'', Settle ''main'' None] new_manager)
       = (Inr Ready,
          manager_run Suc counting_factory [Acquire ''main'', Settle ''main'' None] new_manager)"
proof -
  let ?sc = "\<lparr>driver_type = Memory, store_defaultTtl = None, store_keyPrefix = None,
               store_errorMode = None, store_reconnect = None\<rparr>"
  let ?c = "cache_run counting_driver [Acquire ''main'', Settle ''main'' None] configured"
  let ?m = "manager_run Suc counting_factory [Acquire ''main'', Settle ''main'' None] new_manager"
  let ?i = "\<lparr>driver = Suc 0, instance_config = ?sc, initialized = True\<rparr>"
  have h1: "cache_config configured = Some one_store_config"
    by (simp add: configured_def)
  have h2: "map_of (config_stores one_store_config) ''main'' = Some ?sc"
    by (simp add: one_store_config_def)
  have h3: "map_of (stores configured) ''main'' = None"
    by (simp add: configured_def)
  have h4: "createDriver counting_driver one_store_config ?sc ''main'' = Inr 0"
    by (simp add: createDriver_def counting_driver_def)
  have h5: "manager_config new_manager = one_store_config"
    "map_of (manager_stores new_manager) ''main'' = None"
    by (simp_all add: new_manager_def)
  have h6: "StoreManager_createDriver counting_factory one_store_config ?sc ''main'' = Inr 0"
    by (simp add: StoreManager_createDriver_def counting_factory_def)
  have i: "initialize counting_driver = Suc"
    by (simp add: counting_driver_def)
  have a1: "cache_config ?c = Some one_store_config" "map_of (stores ?c) ''main'' = Some ?i"
    by (simp_all add: cache_eval)
  have a2: "manager_config ?m = one_store_config" "map_of (manager_stores ?m) ''main'' = Some ?i"
    by (simp_all add: manager_eval)
  have a3: "initialized ?i"
    by simp
  from C6_initialize_once_per_call_until_resolved
         [where c' = configured and cfg = one_store_config and s = "''main''" and sc = ?sc
            and drv = counting_driver and fresh = 0 and m' = new_manager
            and outcomes = "[Some ''boom'', None, None]"
            and ini = Suc and fac = counting_factory and c = ?c and m = ?m and inst = ?i]
       h1 h2 h3 h4 h5 h6 i a1 a2 a3
  show ?thesis
    by (simp add: initialize_calls_def)
qed

text \<open>The claim as written fails for overlapping calls: there is no record of an
  initialization in flight, so a second call that arrives before the first
  \<open>initialize()\<close> has settled invokes \<open>initialize()\<close> again on the same driver, in
  the facade and in the store manager alike.\<close>

theorem C6_two_concurrent_calls_initialize_twice:
  "initialize_calls
     (cache_run counting_driver
        [Acquire ''main'', Acquire ''main'', Settle ''main'' None, Settle ''main'' None]
        configured) ''main'' = Some 2
   \<and> map_option driver
       (map_of (manager_stores
          (manager_run Suc counting_factory
             [Acquire ''main'', Acquire ''main'', Settle ''main'' None, Settle ''main'' None]
             new_manager)) ''main'') = Some 2"
  by (simp add: cache_eval manager_eval)

section \<open>The facade before \<open>initialize\<close>\<close>

text \<open>A store that has been acquired is in the table.\<close>

lemma begin_instance_present:
  "getStoreInstance_begin drv s c = (Inr a, c1) \<Longrightarrow> map_of (stores c1) s \<noteq> None"
  by (auto simp: getStoreInstance_begin_def Let_def update_conv'
      split: option.splits sum.splits if_splits prod.splits)

lemma resume_instance_present:
  "getStoreInstance_resume s outcome c = (r, c1) \<Longrightarrow> map_of (stores c) s \<noteq> None \<Longrightarrow>
     map_of (stores c1) s \<noteq> None"
  by (auto simp: getStoreInstance_resume_def map_of_map_entry split: option.splits)

lemma getStoreInstance_instance_present:
  "getStoreInstance drv outcome s c = (Inr u, c1) \<Longrightarrow> map_of (stores c1) s \<noteq> None"
  by (auto simp: getStoreInstance_def split: prod.splits sum.splits acquisition.splits
      dest: begin_instance_present resume_instance_present)

lemma getDefaultStore_instance_present:
  "getDefaultStore drv outcome c = (Inr s, c1) \<Longrightarrow> map_of (stores c1) s \<noteq> None"
  by (auto simp: getDefaultStore_def split: option.splits if_splits prod.splits sum.splits
      dest: getStoreInstance_instance_present)



end
